theory Spec2Isabelle
  imports Main "HOL-Library.Word" "HOL-Library.Multiset"
begin

section \<open>The unzip plugin: data model\<close>

text \<open>
  This theory embeds \<^verbatim>\<open>src/ufop/unzip/unzip.go\<close>. Go strings are byte sequences and
  are modelled as \<open>string\<close>; \<^verbatim>\<open>uint64\<close> values are \<open>64 word\<close> (comparison is the
  unsigned one); \<^verbatim>\<open>int\<close> values that cannot overflow here (the entry count, the
  configured maximum, the upload counter) are \<open>int\<close> or \<open>nat\<close>. An \<^verbatim>\<open>error\<close>
  is the string its \<^verbatim>\<open>Error()\<close> method gives, and a fallible call returns a sum
  with the error on the left.
\<close>

type_synonym bytes = "8 word list"

definition UNZIP_MAX_ZIP_FILE_LENGTH :: "64 word" where
  "UNZIP_MAX_ZIP_FILE_LENGTH = 1 * 1024 * 1024 * 1024"

definition UNZIP_MAX_FILE_LENGTH :: "64 word" where
  "UNZIP_MAX_FILE_LENGTH = 100 * 1024 * 1024"

definition UNZIP_MAX_FILE_COUNT :: int where
  "UNZIP_MAX_FILE_COUNT = 10"

definition MAX_UPLOAD_WORKERS :: nat where
  "MAX_UPLOAD_WORKERS = 100"

record UnzipFile =
  Key :: string
  Hash :: string
  Error :: string

record UnzipResult =
  Files :: "UnzipFile list"

record Mac =
  Mac_AccessKey :: string
  Mac_SecretKey :: string

record Unzipper =
  mac :: Mac
  maxZipFileLength :: "64 word"
  maxFileLength :: "64 word"
  maxFileCount :: int

record UnzipperConfig =
  AccessKey :: string
  SecretKey :: string
  UnzipMaxZipFileLength :: "64 word"
  UnzipMaxFileLength :: "64 word"
  UnzipMaxFileCount :: int

text \<open>
  \<^verbatim>\<open>InitConfig\<close> opens and decodes the configuration file; the model takes the
  outcome of those two library calls. The receiver is returned updated; on an error it
  is not touched.
\<close>

datatype config_file = OpenFailed string | DecodeFailed string | Decoded UnzipperConfig

definition InitConfig :: "Unzipper \<Rightarrow> config_file \<Rightarrow> string + Unzipper" where
  "InitConfig this jobConf =
     (case jobConf of
        OpenFailed openErr \<Rightarrow> Inl (''Open unzip config failed, '' @ openErr)
      | DecodeFailed decodeErr \<Rightarrow> Inl (''Parse unzip config failed, '' @ decodeErr)
      | Decoded config \<Rightarrow>
          Inr (this\<lparr>
            maxFileCount :=
              (if UnzipMaxFileCount config \<le> 0 then UNZIP_MAX_FILE_COUNT
               else UnzipMaxFileCount config),
            maxFileLength :=
              (if UnzipMaxFileLength config \<le> 0 then UNZIP_MAX_FILE_LENGTH
               else UnzipMaxFileLength config),
            maxZipFileLength :=
              (if UnzipMaxZipFileLength config \<le> 0 then UNZIP_MAX_ZIP_FILE_LENGTH
               else UnzipMaxZipFileLength config),
            mac := \<lparr>Mac_AccessKey = AccessKey config, Mac_SecretKey = SecretKey config\<rparr>\<rparr>))"

subsection \<open>The request, the archive and the collaborators\<close>

record UfopRequest =
  Cmd :: string
  Src_Url :: string
  Src_MimeType :: string
  Src_Fsize :: "64 word"

record http_Response =
  StatusCode :: int
  Status :: string
  Body :: "string + bytes"

text \<open>
  One record of the archive's central directory, as \<^verbatim>\<open>archive/zip\<close> hands it over:
  the raw name, the declared uncompressed size, what \<^verbatim>\<open>FileInfo().IsDir()\<close> says,
  and what \<^verbatim>\<open>Open\<close> followed by \<^verbatim>\<open>ioutil.ReadAll\<close> gives.
\<close>

datatype content = OpenError string | ReadError string | Data bytes

record zip_File =
  Name :: string
  UncompressedSize64 :: "64 word"
  IsDir :: bool
  Content :: content

text \<open>
  Everything \<^verbatim>\<open>Do\<close> calls outside this file is a parameter: the regular-expression
  match and the integer parser of the Go library, \<^verbatim>\<open>utils.GetParamDecoded\<close>,
  \<^verbatim>\<open>utils.GetParam\<close> and \<^verbatim>\<open>utils.Gbk2Utf8\<close> of the package \<^verbatim>\<open>ufop/utils\<close>,
  the HTTP fetch (\<open>Body\<close> is what \<^verbatim>\<open>ioutil.ReadAll\<close> makes of the response body),
  the ZIP index parser, \<^verbatim>\<open>utf8.Valid\<close> and the token signer of the store's SDK.
\<close>

record env =
  regexp_MatchString :: "string \<Rightarrow> string \<Rightarrow> bool"
  strconv_ParseInt :: "string \<Rightarrow> string + int"
  GetParamDecoded :: "string \<Rightarrow> string \<Rightarrow> string \<Rightarrow> string + string"
  GetParam :: "string \<Rightarrow> string \<Rightarrow> string \<Rightarrow> string"
  http_Get :: "string \<Rightarrow> string + http_Response"
  zip_NewReader :: "bytes \<Rightarrow> string + zip_File list"
  utf8_Valid :: "string \<Rightarrow> bool"
  Gbk2Utf8 :: "string \<Rightarrow> string + string"
  policy_Token :: "string \<Rightarrow> Mac \<Rightarrow> string"

section \<open>The descriptor parser\<close>

definition quoted :: "string \<Rightarrow> string" where
  "quoted s = [CHR 0x27] @ s @ [CHR 0x27]"

definition parse :: "env \<Rightarrow> string \<Rightarrow> string + (string \<times> string \<times> bool)" where
  "parse E cmd =
     (if \<not> regexp_MatchString E
             ''^unzip/bucket/[0-9a-zA-Z-_=]+(/prefix/[0-9a-zA-Z-_=]+){0,1}(/overwrite/(0|1)){0,1}$'' cmd
      then Inl ''invalid unzip command format''
      else case GetParamDecoded E cmd ''bucket/[0-9a-zA-Z-_=]+'' ''bucket'' of
        Inl decodeErr \<Rightarrow> Inl (''invalid unzip parameter '' @ quoted ''bucket'')
      | Inr bucket \<Rightarrow>
         (case GetParamDecoded E cmd ''prefix/[0-9a-zA-Z-_=]+'' ''prefix'' of
            Inl decodeErr \<Rightarrow> Inl (''invalid unzip parameter '' @ quoted ''prefix'')
          | Inr prefix \<Rightarrow>
             (let overwriteStr = GetParam E cmd ''overwrite/(0|1)'' ''overwrite'' in
              if overwriteStr \<noteq> []
              then (case strconv_ParseInt E overwriteStr of
                      Inl paramErr \<Rightarrow> Inl (''invalid unzip parameter '' @ quoted ''overwrite'')
                    | Inr overwriteVal \<Rightarrow> Inr (bucket, prefix, overwriteVal = 1))
              else Inr (bucket, prefix, False))))"

section \<open>The upload goroutine\<close>

text \<open>
  The variables one goroutine closes over. They are declared inside the loop body, so
  every goroutine has its own; \<^verbatim>\<open>unzipFile.Key\<close> is \<open>fileName\<close>.
\<close>

record task =
  fileName :: string
  fileSize :: "64 word"
  unzipData :: bytes
  uptoken :: string

record Settings =
  ChunkSize :: int
  Workers :: int

definition rputSettings :: Settings where
  "rputSettings = \<lparr>ChunkSize = 4 * 1024 * 1024, Workers = 1\<rparr>"

definition rputThreshold :: "64 word" where
  "rputThreshold = 100 * 1024 * 1024"

text \<open>
  The two capabilities of the blob store. \<open>FioPut uptoken key data\<close> is
  \<^verbatim>\<open>fio.Put(nil, &ret, uptoken, key, data, nil)\<close>; \<open>RioPut settings uptoken key data n\<close>
  is \<^verbatim>\<open>rio.Put(nil, &ret, uptoken, key, data, n, nil)\<close> under the settings installed by
  \<^verbatim>\<open>rio.SetSettings\<close>, with \<open>n\<close> the \<^verbatim>\<open>int64\<close> conversion of the size. The store's
  answer is \<open>Inl\<close> the error or \<open>Inr\<close> the \<^verbatim>\<open>Hash\<close> of the returned \<^verbatim>\<open>PutRet\<close>.
\<close>

datatype put_call =
  FioPut string string bytes
| RioPut Settings string string bytes int

type_synonym put_ret = "string + string"

definition upload :: "task \<Rightarrow> put_ret \<Rightarrow> put_call \<times> UnzipFile" where
  "upload t ret =
     (let unzipFile = \<lparr>Key = fileName t, Hash = [], Error = []\<rparr> in
      if fileSize t \<le> rputThreshold
      then (FioPut (uptoken t) (fileName t) (unzipData t),
            (case ret of
               Inl fErr \<Rightarrow> unzipFile\<lparr>Error := ''save unzip file to bucket error, '' @ fErr\<rparr>
             | Inr hash \<Rightarrow> unzipFile\<lparr>Hash := hash\<rparr>))
      else (RioPut rputSettings (uptoken t) (fileName t) (unzipData t) (sint (fileSize t)),
            (case ret of
               Inl rErr \<Rightarrow> unzipFile\<lparr>Error := ''save unzip file to bucket error, '' @ rErr\<rparr>
             | Inr hash \<Rightarrow> unzipFile\<lparr>Hash := hash\<rparr>)))"

section \<open>The state of one call of Do\<close>

text \<open>
  The main goroutine is at the head of the loop with the entries still to visit
  (\<open>Loop\<close>), blocked in the \<^verbatim>\<open>uploadWg.Wait()\<close> inside the loop with the task it is
  about to launch (\<open>Barrier\<close>), blocked in the \<^verbatim>\<open>uploadWg.Wait()\<close> after the loop
  (\<open>Join\<close>), or it has returned. \<open>uploadWg\<close> holds the goroutines that were added to
  the wait group and are not done; \<open>puts\<close> logs every call made to the store with the
  store's answer, in the order the goroutines completed.
\<close>

datatype pc =
  Loop "zip_File list"
| Barrier task "zip_File list"
| Join
| Returned "string + UnzipResult"

record state =
  bucket :: string
  prefix :: string
  overwrite :: bool
  pc :: pc
  policy_Scope :: string
  unzipResult :: UnzipResult
  uploadCounter :: nat
  uploadWg :: "task list"
  puts :: "(put_call \<times> put_ret) list"

definition init :: state where
  "init = \<lparr>bucket = [], prefix = [], overwrite = False, pc = Loop [],
           policy_Scope = [], unzipResult = \<lparr>Files = []\<rparr>, uploadCounter = 0,
           uploadWg = [], puts = []\<rparr>"

definition failed :: "string \<Rightarrow> state" where
  "failed err = init\<lparr>pc := Returned (Inl err)\<rparr>"

fun check_file_size :: "Unzipper \<Rightarrow> zip_File list \<Rightarrow> bool" where
  "check_file_size this [] = True"
| "check_file_size this (zipFile # zipFiles) =
     (if UncompressedSize64 zipFile > maxFileLength this then False
      else check_file_size this zipFiles)"

text \<open>
  \<^verbatim>\<open>Do\<close> up to the first iteration of the upload loop: the descriptor, the mime
  type, the declared size of the source, the fetch, the ZIP index, the entry count and the
  scan of the declared entry sizes. Each failed check returns its error with nothing
  launched. Left out of the model, since no state the claims speak of depends on them:
  the log lines and the \<^verbatim>\<open>fmt.Println\<close> of the goroutine, the deferred
  \<^verbatim>\<open>Close\<close> calls, the assignment of \<^verbatim>\<open>conf.UP_HOST\<close>, and the two constant
  results \<^verbatim>\<open>resultType\<close> and \<^verbatim>\<open>contentType\<close> of the successful return.
\<close>

definition Do_start :: "env \<Rightarrow> Unzipper \<Rightarrow> UfopRequest \<Rightarrow> state" where
  "Do_start E this req =
     (case parse E (Cmd req) of
        Inl pErr \<Rightarrow> failed pErr
      | Inr (bucket', prefix', overwrite') \<Rightarrow>
          if \<not> (Src_MimeType req = ''application/zip''
                \<or> Src_MimeType req = ''application/x-zip-compressed'')
          then failed ''unsupported mimetype to unzip''
          else if Src_Fsize req > maxZipFileLength this
          then failed ''src zip file length exceeds the limit''
          else (case http_Get E (Src_Url req) of
             Inl respErr \<Rightarrow> failed (''retrieve resource data failed, '' @ respErr)
           | Inr resResp \<Rightarrow>
               if StatusCode resResp \<noteq> 200
               then failed (''retrieve resource data failed, '' @ Status resResp)
               else (case Body resResp of
                  Inl readErr \<Rightarrow> failed (''read resource data failed, '' @ readErr)
                | Inr respData \<Rightarrow>
                   (case zip_NewReader E respData of
                      Inl zipErr \<Rightarrow> failed (''invalid zip file, '' @ zipErr)
                    | Inr zipFiles \<Rightarrow>
                        if int (length zipFiles) > maxFileCount this
                        then failed ''zip files count exceeds the limit''
                        else if \<not> check_file_size this zipFiles
                        then failed ''zip file length exceeds the limit''
                        else init\<lparr>bucket := bucket', prefix := prefix',
                                  overwrite := overwrite', policy_Scope := bucket',
                                  pc := Loop zipFiles\<rparr>))))"

definition decode_name :: "env \<Rightarrow> string \<Rightarrow> string + string" where
  "decode_name E name =
     (if \<not> utf8_Valid E name
      then (case Gbk2Utf8 E name of
              Inl tErr \<Rightarrow> Inl (''unsupported file name encoding, '' @ tErr)
            | Inr name' \<Rightarrow> Inr name')
      else Inr name)"

text \<open>
  One move of the main goroutine: one iteration of the loop up to the point where it
  launches the goroutine or blocks, or the return from a wait. A blocked wait leaves the
  state as it is.
\<close>

definition main_step :: "env \<Rightarrow> Unzipper \<Rightarrow> state \<Rightarrow> state" where
  "main_step E this s =
     (case pc s of
        Loop [] \<Rightarrow> s\<lparr>pc := Join\<rparr>
      | Loop (zipFile # rest) \<Rightarrow>
         (case decode_name E (Name zipFile) of
            Inl err \<Rightarrow> s\<lparr>pc := Returned (Inl err)\<rparr>
          | Inr name \<Rightarrow>
              if IsDir zipFile then s\<lparr>pc := Loop rest\<rparr>
              else (case Content zipFile of
                 OpenError zipErr \<Rightarrow>
                   s\<lparr>pc := Returned (Inl (''open zip file content failed, '' @ zipErr))\<rparr>
               | ReadError unzipErr \<Rightarrow>
                   s\<lparr>pc := Returned (Inl (''unzip the file content failed, '' @ unzipErr))\<rparr>
               | Data unzipData' \<Rightarrow>
                  (let fileName' = prefix s @ name;
                       scope = (if overwrite s then bucket s @ '':'' @ fileName'
                                else policy_Scope s);
                       t = \<lparr>fileName = fileName', fileSize = UncompressedSize64 zipFile,
                            unzipData = unzipData', uptoken = policy_Token E scope (mac this)\<rparr>;
                       s' = s\<lparr>policy_Scope := scope, uploadCounter := uploadCounter s + 1\<rparr>
                   in if uploadCounter s' mod MAX_UPLOAD_WORKERS = 0
                      then s'\<lparr>pc := Barrier t rest\<rparr>
                      else s'\<lparr>uploadWg := uploadWg s' @ [t], pc := Loop rest\<rparr>)))
      | Barrier t rest \<Rightarrow>
          if uploadWg s = [] then s\<lparr>uploadWg := [t], pc := Loop rest\<rparr> else s
      | Join \<Rightarrow>
          if uploadWg s = [] then s\<lparr>pc := Returned (Inr (unzipResult s))\<rparr> else s
      | Returned r \<Rightarrow> s)"

text \<open>
  One upload goroutine runs to its end: it calls the store, appends its outcome under
  the lock and leaves the wait group. \<open>i\<close> picks the goroutine among those outstanding.
\<close>

definition task_done :: "nat \<Rightarrow> put_ret \<Rightarrow> state \<Rightarrow> state" where
  "task_done i ret s =
     (if i < length (uploadWg s)
      then (case upload (uploadWg s ! i) ret of
              (call, unzipFile) \<Rightarrow>
                s\<lparr>uploadWg := take i (uploadWg s) @ drop (Suc i) (uploadWg s),
                  puts := puts s @ [(call, ret)],
                  unzipResult := \<lparr>Files = Files (unzipResult s) @ [unzipFile]\<rparr>\<rparr>)
      else s)"

text \<open>
  The scheduler and the store are the sources of nondeterminism: a schedule says which
  goroutine moves next and what the store answers.
\<close>

datatype move = Main | Done nat put_ret

fun step :: "env \<Rightarrow> Unzipper \<Rightarrow> move \<Rightarrow> state \<Rightarrow> state" where
  "step E this Main s = main_step E this s"
| "step E this (Done i ret) s = task_done i ret s"

definition run :: "env \<Rightarrow> Unzipper \<Rightarrow> move list \<Rightarrow> state \<Rightarrow> state" where
  "run E this sched s = fold (step E this) sched s"

definition Do :: "env \<Rightarrow> Unzipper \<Rightarrow> UfopRequest \<Rightarrow> move list \<Rightarrow> state" where
  "Do E this req sched = run E this sched (Do_start E this req)"

section \<open>Notions used to state the properties\<close>

text \<open>
  An entry extracts when \<^verbatim>\<open>Open\<close> and \<^verbatim>\<open>ReadAll\<close> both succeed; it is well formed
  when, in addition, its name is valid UTF-8 or transcodes from GBK. Directory entries
  are never opened.
\<close>

fun extracts :: "content \<Rightarrow> bool" where
  "extracts (Data d) = True"
| "extracts (OpenError e) = False"
| "extracts (ReadError e) = False"

definition well_formed :: "env \<Rightarrow> zip_File \<Rightarrow> bool" where
  "well_formed E zf = (\<not> isl (decode_name E (Name zf)) \<and> (IsDir zf \<or> extracts (Content zf)))"

definition decodedName :: "env \<Rightarrow> zip_File \<Rightarrow> string" where
  "decodedName E zf = (case decode_name E (Name zf) of Inr name \<Rightarrow> name | Inl err \<Rightarrow> Name zf)"

text \<open>The keys \<open>prefix + decodedName\<close> of the entries that are not directories.\<close>

definition target_keys :: "env \<Rightarrow> string \<Rightarrow> zip_File list \<Rightarrow> string list" where
  "target_keys E p zipFiles =
     map (\<lambda>zf. p @ decodedName E zf) (filter (\<lambda>zf. \<not> IsDir zf) zipFiles)"

fun key_of_call :: "put_call \<Rightarrow> string" where
  "key_of_call (FioPut tok key d) = key"
| "key_of_call (RioPut st tok key d n) = key"

fun direct :: "put_call \<Rightarrow> bool" where
  "direct (FioPut tok key d) = True"
| "direct (RioPut st tok key d n) = False"

text \<open>
  The strategy that fits a declared size: the direct put up to 100 MiB, above it the
  resumable put with chunks of 4 MiB and the size as the declared length.
\<close>

fun call_fits_size :: "64 word \<Rightarrow> put_call \<Rightarrow> bool" where
  "call_fits_size n (FioPut tok key d) = (n \<le> 104857600)"
| "call_fits_size n (RioPut st tok key d len) =
     (104857600 < n \<and> ChunkSize st = 4194304 \<and> len = sint n)"

text \<open>The outcome that belongs to a call to the store and the store's answer.\<close>

fun recorded :: "put_call \<times> put_ret \<Rightarrow> UnzipFile" where
  "recorded (call, Inl err) =
     \<lparr>Key = key_of_call call, Hash = [], Error = ''save unzip file to bucket error, '' @ err\<rparr>"
| "recorded (call, Inr hash) = \<lparr>Key = key_of_call call, Hash = hash, Error = []\<rparr>"

text \<open>
  A field of an outcome is set when it is not the empty string: that is Go's zero value,
  and \<^verbatim>\<open>omitempty\<close> leaves such a field out of the JSON report.
\<close>

definition exactly_one_set :: "UnzipFile \<Rightarrow> bool" where
  "exactly_one_set f = ((Hash f \<noteq> []) \<noteq> (Error f \<noteq> []))"

text \<open>A move in which the store does not answer a successful put with an empty hash.\<close>

fun hash_given :: "put_ret \<Rightarrow> bool" where
  "hash_given (Inl err) = True"
| "hash_given (Inr hash) = (hash \<noteq> [])"

fun nonempty_hash :: "move \<Rightarrow> bool" where
  "nonempty_hash Main = True"
| "nonempty_hash (Done i ret) = hash_given ret"

section \<open>Example inputs\<close>

text \<open>
  An environment in which every descriptor parses to the bucket \<open>bkt\<close> and the prefix
  \<open>out/\<close> without overwrite, the fetch succeeds and the archive has the given entries.
  Names are valid when they are ASCII; the transcoder knows one GBK character.
\<close>

definition example_env :: "zip_File list \<Rightarrow> env" where
  "example_env zipFiles =
     \<lparr>regexp_MatchString = (\<lambda>pattern s. True),
      strconv_ParseInt = (\<lambda>s. if s = ''1'' then Inr 1 else if s = ''0'' then Inr 0
                              else Inl ''invalid syntax''),
      GetParamDecoded = (\<lambda>cmd pattern key. if key = ''bucket'' then Inr ''bkt'' else Inr ''out/''),
      GetParam = (\<lambda>cmd pattern key. ''0''),
      http_Get = (\<lambda>url. Inr \<lparr>StatusCode = 200, Status = ''200 OK'', Body = Inr []\<rparr>),
      zip_NewReader = (\<lambda>data. Inr zipFiles),
      utf8_Valid = list_all (\<lambda>c. of_char c < (128 :: nat)),
      Gbk2Utf8 = (\<lambda>s. if s = [CHR 0xD6, CHR 0xD0] then Inr [CHR 0xE4, CHR 0xB8, CHR 0xAD]
                      else Inl ''illegal byte sequence''),
      policy_Token = (\<lambda>scope m. Mac_AccessKey m @ '':'' @ scope)\<rparr>"

definition example_Unzipper :: Unzipper where
  "example_Unzipper =
     \<lparr>mac = \<lparr>Mac_AccessKey = ''ak'', Mac_SecretKey = ''sk''\<rparr>,
      maxZipFileLength = UNZIP_MAX_ZIP_FILE_LENGTH,
      maxFileLength = UNZIP_MAX_FILE_LENGTH,
      maxFileCount = UNZIP_MAX_FILE_COUNT\<rparr>"

definition roomy_Unzipper :: Unzipper where
  "roomy_Unzipper = example_Unzipper\<lparr>maxFileLength := 200 * 1024 * 1024\<rparr>"

definition example_req :: UfopRequest where
  "example_req =
     \<lparr>Cmd = ''unzip/bucket/Ymt0/prefix/b3V0Lw=='', Src_Url = ''http://example.com/a.zip'',
      Src_MimeType = ''application/zip'', Src_Fsize = 4096\<rparr>"

definition example_resp :: http_Response where
  "example_resp = \<lparr>StatusCode = 200, Status = ''200 OK'', Body = Inr []\<rparr>"

definition file_entry :: "string \<Rightarrow> 64 word \<Rightarrow> zip_File" where
  "file_entry name n =
     \<lparr>Name = name, UncompressedSize64 = n, IsDir = False, Content = Data (replicate (unat n) 0)\<rparr>"

definition dir_entry :: "string \<Rightarrow> zip_File" where
  "dir_entry name = \<lparr>Name = name, UncompressedSize64 = 0, IsDir = True, Content = Data []\<rparr>"

definition limit_entry :: zip_File where
  "limit_entry = \<lparr>Name = ''max.bin'', UncompressedSize64 = 104857600, IsDir = False,
                   Content = Data [7]\<rparr>"

definition bad_dir_entry :: zip_File where
  "bad_dir_entry = \<lparr>Name = [CHR 0xFF, CHR ''/''], UncompressedSize64 = 0, IsDir = True,
                     Content = Data []\<rparr>"

definition big_entry :: zip_File where
  "big_entry = \<lparr>Name = ''big.bin'', UncompressedSize64 = 104857601, IsDir = False,
                 Content = Data [1, 2, 3]\<rparr>"

definition truncated_entry :: zip_File where
  "truncated_entry = \<lparr>Name = ''b.txt'', UncompressedSize64 = 20, IsDir = False,
                       Content = ReadError ''unexpected EOF''\<rparr>"

definition eleven_files :: "zip_File list" where
  "eleven_files = map (\<lambda>c. file_entry [c] 1) ''abcdefghijk''"

definition scenario_archive :: "zip_File list" where
  "scenario_archive = [file_entry ''a.txt'' 10, dir_entry ''b/'', file_entry ''b/c.txt'' 20]"

definition probe_sched :: "move list" where
  "probe_sched = [Main, Done 0 (Inr ''h''), Main]"

section \<open>Invariants of the wait group\<close>

text \<open>
  The number of outstanding goroutines against the upload counter, and the counter
  against the goroutines launched so far.
\<close>

definition wg_inv :: "state \<Rightarrow> bool" where
  "wg_inv s =
     (length (uploadWg s) \<le> MAX_UPLOAD_WORKERS
      \<and> (case pc s of
           Loop es \<Rightarrow> length (uploadWg s) \<le> uploadCounter s mod MAX_UPLOAD_WORKERS + 1
         | Barrier t es \<Rightarrow> uploadCounter s mod MAX_UPLOAD_WORKERS = 0
         | Join \<Rightarrow> True
         | Returned r \<Rightarrow> True))"

definition count_inv :: "state \<Rightarrow> bool" where
  "count_inv s =
     (uploadCounter s = length (puts s) + length (uploadWg s)
        + (case pc s of Barrier t es \<Rightarrow> 1 | Loop es \<Rightarrow> 0 | Join \<Rightarrow> 0 | Returned r \<Rightarrow> 0))"

text \<open>A bulk archive of equal files, and the states the loop goes through on it.\<close>

definition bulk_Unzipper :: Unzipper where
  "bulk_Unzipper = example_Unzipper\<lparr>maxFileCount := 1000\<rparr>"

definition many_files :: "nat \<Rightarrow> zip_File list" where
  "many_files n = replicate n (file_entry ''f'' 1)"

definition f_task :: task where
  "f_task = \<lparr>fileName = ''out/f'', fileSize = 1, unzipData = [0], uptoken = ''ak:bkt''\<rparr>"

definition loop_state :: "nat \<Rightarrow> nat \<Rightarrow> nat \<Rightarrow> pc \<Rightarrow> state" where
  "loop_state c w d p =
     \<lparr>bucket = ''bkt'', prefix = ''out/'', overwrite = False, pc = p,
      policy_Scope = ''bkt'',
      unzipResult = \<lparr>Files = replicate d \<lparr>Key = ''out/f'', Hash = ''Fh'', Error = []\<rparr>\<rparr>,
      uploadCounter = c, uploadWg = replicate w f_task,
      puts = replicate d (FioPut ''ak:bkt'' ''out/f'' [0], Inr ''Fh'')\<rparr>"

definition bulk_archive :: "zip_File list" where
  "bulk_archive = many_files 101 @ [truncated_entry]"

section \<open>Invariants of the report\<close>

text \<open>
  \<open>keys_inv\<close>: the keys recorded, those of the outstanding goroutines and those of the
  entries still to visit add up to the keys of the archive. \<open>good_inv\<close>: over an
  archive of well-formed entries the main goroutine never returns an error.
  \<open>log_inv\<close>: the report lists the outcome of every call made to the store, in order.
  \<open>ret_inv\<close>: the returned report is the aggregated one, and nothing is outstanding.
\<close>

definition keys_inv :: "env \<Rightarrow> string multiset \<Rightarrow> state \<Rightarrow> bool" where
  "keys_inv E K s =
     (case pc s of
        Loop es \<Rightarrow>
          mset (map Key (Files (unzipResult s))) + mset (map fileName (uploadWg s))
            + mset (target_keys E (prefix s) es) = K
      | Barrier t es \<Rightarrow>
          mset (map Key (Files (unzipResult s))) + mset (map fileName (uploadWg s))
            + {#fileName t#} + mset (target_keys E (prefix s) es) = K
      | Join \<Rightarrow> mset (map Key (Files (unzipResult s))) + mset (map fileName (uploadWg s)) = K
      | Returned r \<Rightarrow>
          (case r of
             Inl err \<Rightarrow> True
           | Inr res \<Rightarrow> uploadWg s = [] \<and> res = unzipResult s
               \<and> mset (map Key (Files res)) = K))"

definition good_inv :: "env \<Rightarrow> state \<Rightarrow> bool" where
  "good_inv E s =
     (case pc s of
        Loop es \<Rightarrow> \<forall>zf \<in> set es. well_formed E zf
      | Barrier t es \<Rightarrow> \<forall>zf \<in> set es. well_formed E zf
      | Join \<Rightarrow> True
      | Returned r \<Rightarrow> \<not> isl r)"

definition log_inv :: "state \<Rightarrow> bool" where
  "log_inv s = (Files (unzipResult s) = map recorded (puts s))"

definition ret_inv :: "state \<Rightarrow> bool" where
  "ret_inv s = (\<forall>res. pc s = Returned (Inr res) \<longrightarrow> res = unzipResult s \<and> uploadWg s = [])"

definition scenario_sched :: "move list" where
  "scenario_sched = [Main, Main, Main, Done 1 (Inr ''Fh2''), Done 0 (Inr ''Fh1''), Main, Main]"

definition failing_sched :: "move list" where
  "failing_sched = [Main, Done 0 (Inl ''timeout''), Main, Main, Done 0 (Inl ''503''), Main, Main]"

section \<open>Where tasks and calls come from\<close>

text \<open>
  A task, and a call to the store, that belongs to an entry of the archive which is not a
  directory: it carries the key of that entry and the declared size of that entry decides
  its strategy. \<open>origin_inv\<close> says so of every goroutine and of every call logged.
\<close>

definition task_from_entry :: "env \<Rightarrow> string \<Rightarrow> zip_File list \<Rightarrow> task \<Rightarrow> bool" where
  "task_from_entry E p zipFiles t =
     (\<exists>zf \<in> set zipFiles. \<not> IsDir zf \<and> fileName t = p @ decodedName E zf
        \<and> fileSize t = UncompressedSize64 zf)"

definition call_from_entry :: "env \<Rightarrow> string \<Rightarrow> zip_File list \<Rightarrow> put_call \<Rightarrow> bool" where
  "call_from_entry E p zipFiles call =
     (\<exists>zf \<in> set zipFiles. \<not> IsDir zf \<and> key_of_call call = p @ decodedName E zf
        \<and> call_fits_size (UncompressedSize64 zf) call)"

definition origin_inv :: "env \<Rightarrow> zip_File list \<Rightarrow> state \<Rightarrow> bool" where
  "origin_inv E zipFiles s =
     ((\<forall>t \<in> set (uploadWg s). task_from_entry E (prefix s) zipFiles t)
      \<and> (\<forall>c \<in> set (puts s). call_from_entry E (prefix s) zipFiles (fst c))
      \<and> (case pc s of
           Loop es \<Rightarrow> set es \<subseteq> set zipFiles
         | Barrier t es \<Rightarrow> task_from_entry E (prefix s) zipFiles t \<and> set es \<subseteq> set zipFiles
         | Join \<Rightarrow> True
         | Returned r \<Rightarrow> True))"

definition mixed_sched :: "move list" where
  "mixed_sched = [Main, Main, Done 0 (Inr ''Fh1''), Done 0 (Inr ''lh2''), Main, Main]"

definition limit_sched :: "move list" where
  "limit_sched = [Main, Done 0 (Inr ''Fh''), Main, Main]"

section \<open>Fatal entries\<close>

text \<open>
  \<open>poison_inv\<close>: an entry whose name cannot be decoded is still ahead of the main
  goroutine, or the call has returned an error.
\<close>

definition poison_inv :: "zip_File \<Rightarrow> state \<Rightarrow> bool" where
  "poison_inv zf s =
     (case pc s of
        Loop es \<Rightarrow> zf \<in> set es
      | Barrier t es \<Rightarrow> zf \<in> set es
      | Join \<Rightarrow> False
      | Returned r \<Rightarrow> isl r)"

definition bad_dir_sched :: "move list" where
  "bad_dir_sched = [Main, Done 0 (Inr ''Fh1''), Main]"

definition pre_abort_sched :: "move list" where
  "pre_abort_sched = replicate 100 Main @ replicate 99 (Done 0 (Inr ''Fh'')) @ [Main, Main]"

definition abort_sched :: "move list" where
  "abort_sched = pre_abort_sched @ [Main]"

definition empty_hash_sched :: "move list" where
  "empty_hash_sched = [Main, Done 0 (Inr []), Main, Main]"

definition partial_sched :: "move list" where
  "partial_sched = [Main, Done 0 (Inr ''Fh1''), Main, Main, Done 0 (Inl ''timeout''), Main, Main]"

section \<open>Schedules and steps\<close>

lemma run_Nil [simp]: "run E this [] s = s"
  by (simp add: run_def)

lemma run_Cons [simp]: "run E this (m # sched) s = run E this sched (step E this m s)"
  by (simp add: run_def)

lemma run_append: "run E this (a @ b) s = run E this b (run E this a s)"
  by (simp add: run_def)

lemma run_invariant:
  assumes "P s"
    and "\<And>s. P s \<Longrightarrow> P (main_step E this s)"
    and "\<And>s i ret. P s \<Longrightarrow> P (task_done i ret s)"
  shows "P (run E this sched s)"
  using assms(1)
proof (induction sched arbitrary: s)
  case Nil
  then show ?case by simp
next
  case (Cons m sched)
  have "P (step E this m s)"
    using Cons.prems assms(2,3) by (cases m) simp_all
  then show ?case using Cons.IH by simp
qed

lemma main_step_cases [consumes 0, case_names to_join name_err dir open_err read_err launch block barrier_wait barrier_pass join_wait join_pass returned]:
  obtains
    "pc s = Loop []" "main_step E this s = s\<lparr>pc := Join\<rparr>"
  | zf rest e where "pc s = Loop (zf # rest)" "decode_name E (Name zf) = Inl e"
      "main_step E this s = s\<lparr>pc := Returned (Inl e)\<rparr>"
  | zf rest n where "pc s = Loop (zf # rest)" "decode_name E (Name zf) = Inr n" "IsDir zf"
      "main_step E this s = s\<lparr>pc := Loop rest\<rparr>"
  | zf rest n e where "pc s = Loop (zf # rest)" "decode_name E (Name zf) = Inr n" "\<not> IsDir zf"
      "Content zf = OpenError e"
      "main_step E this s = s\<lparr>pc := Returned (Inl (''open zip file content failed, '' @ e))\<rparr>"
  | zf rest n e where "pc s = Loop (zf # rest)" "decode_name E (Name zf) = Inr n" "\<not> IsDir zf"
      "Content zf = ReadError e"
      "main_step E this s = s\<lparr>pc := Returned (Inl (''unzip the file content failed, '' @ e))\<rparr>"
  | zf rest n d t scope where "pc s = Loop (zf # rest)" "decode_name E (Name zf) = Inr n" "\<not> IsDir zf"
      "Content zf = Data d" "fileName t = prefix s @ n" "fileSize t = UncompressedSize64 zf"
      "unzipData t = d"
      "Suc (uploadCounter s) mod MAX_UPLOAD_WORKERS \<noteq> 0"
      "main_step E this s = s\<lparr>policy_Scope := scope, uploadCounter := Suc (uploadCounter s),
         uploadWg := uploadWg s @ [t], pc := Loop rest\<rparr>"
  | zf rest n d t scope where "pc s = Loop (zf # rest)" "decode_name E (Name zf) = Inr n" "\<not> IsDir zf"
      "Content zf = Data d" "fileName t = prefix s @ n" "fileSize t = UncompressedSize64 zf"
      "unzipData t = d"
      "Suc (uploadCounter s) mod MAX_UPLOAD_WORKERS = 0"
      "main_step E this s = s\<lparr>policy_Scope := scope, uploadCounter := Suc (uploadCounter s),
         pc := Barrier t rest\<rparr>"
  | t rest where "pc s = Barrier t rest" "uploadWg s \<noteq> []" "main_step E this s = s"
  | t rest where "pc s = Barrier t rest" "uploadWg s = []"
      "main_step E this s = s\<lparr>uploadWg := [t], pc := Loop rest\<rparr>"
  | "pc s = Join" "uploadWg s \<noteq> []" "main_step E this s = s"
  | "pc s = Join" "uploadWg s = []" "main_step E this s = s\<lparr>pc := Returned (Inr (unzipResult s))\<rparr>"
  | r where "pc s = Returned r" "main_step E this s = s"
proof (cases "pc s")
  case (Loop es)
  show ?thesis
  proof (cases es)
    case Nil
    with Loop that(1) show ?thesis by (simp add: main_step_def)
  next
    case (Cons zf rest)
    show ?thesis
    proof (cases "decode_name E (Name zf)")
      case (Inl e)
      with Loop Cons that(2) show ?thesis by (simp add: main_step_def)
    next
      case (Inr n)
      show ?thesis
      proof (cases "IsDir zf")
        case True
        with Loop Cons Inr that(3) show ?thesis by (simp add: main_step_def)
      next
        case False
        show ?thesis
        proof (cases "Content zf")
          case (OpenError e)
          with Loop Cons Inr False that(4) show ?thesis by (simp add: main_step_def)
        next
          case (ReadError e)
          with Loop Cons Inr False that(5) show ?thesis by (simp add: main_step_def)
        next
          case (Data d)
          show ?thesis
          proof (cases "Suc (uploadCounter s) mod MAX_UPLOAD_WORKERS = 0")
            case True
            with Loop Cons Inr False Data show ?thesis
              by (intro that(7)) (simp_all add: main_step_def Let_def)
          next
            case nz: False
            with Loop Cons Inr False Data show ?thesis
              by (intro that(6)) (simp_all add: main_step_def Let_def)
          qed
        qed
      qed
    qed
  qed
next
  case (Barrier t rest)
  then show ?thesis using that(8,9) by (cases "uploadWg s = []") (simp_all add: main_step_def)
next
  case Join
  then show ?thesis using that(10,11) by (cases "uploadWg s = []") (simp_all add: main_step_def)
next
  case (Returned r)
  then show ?thesis using that(12) by (simp add: main_step_def)
qed

lemma task_done_idle: "uploadWg s = [] \<Longrightarrow> task_done i ret s = s"
  by (simp add: task_done_def)

lemma run_returned_idle:
  "pc s = Returned r \<Longrightarrow> uploadWg s = [] \<Longrightarrow> run E this sched s = s"
proof (induction sched)
  case Nil
  then show ?case by simp
next
  case (Cons m sched)
  then have "step E this m s = s"
    by (cases m) (simp_all add: main_step_def task_done_idle)
  with Cons show ?case by simp
qed

lemma run_failed: "run E this sched (failed err) = failed err"
  by (rule run_returned_idle [where r = "Inl err"]) (simp_all add: failed_def init_def)

lemma failed_fields:
  "pc (failed err) = Returned (Inl err)" "puts (failed err) = []" "uploadWg (failed err) = []"
  "Files (unzipResult (failed err)) = []"
  by (simp_all add: failed_def init_def)

lemma check_file_size_iff:
  "check_file_size this zipFiles = (\<forall>zf \<in> set zipFiles. UncompressedSize64 zf \<le> maxFileLength this)"
  by (induction zipFiles) (auto simp: not_less)

lemma Do_start_cases [case_names fatal loop]:
  obtains err where "Do_start E this req = failed err"
  | b p ow resResp respData zipFiles where
      "parse E (Cmd req) = Inr (b, p, ow)"
      "Src_MimeType req = ''application/zip'' \<or> Src_MimeType req = ''application/x-zip-compressed''"
      "Src_Fsize req \<le> maxZipFileLength this"
      "http_Get E (Src_Url req) = Inr resResp" "StatusCode resResp = 200"
      "Body resResp = Inr respData" "zip_NewReader E respData = Inr zipFiles"
      "int (length zipFiles) \<le> maxFileCount this"
      "check_file_size this zipFiles"
      "Do_start E this req = init\<lparr>bucket := b, prefix := p, overwrite := ow, policy_Scope := b,
         pc := Loop zipFiles\<rparr>"
proof (cases "parse E (Cmd req)")
  case (Inl pErr)
  then have "Do_start E this req = failed pErr" by (simp add: Do_start_def)
  then show ?thesis by (rule that(1))
next
  case (Inr j)
  then obtain b p ow where P: "parse E (Cmd req) = Inr (b, p, ow)" by (cases j) auto
  show ?thesis
  proof (cases "Src_MimeType req = ''application/zip''
      \<or> Src_MimeType req = ''application/x-zip-compressed''")
    case False
    with P have "Do_start E this req = failed ''unsupported mimetype to unzip''"
      by (simp add: Do_start_def)
    then show ?thesis by (rule that(1))
  next
    case mime: True
    show ?thesis
    proof (cases "Src_Fsize req > maxZipFileLength this")
      case True
      with P mime have "Do_start E this req = failed ''src zip file length exceeds the limit''"
        by (simp add: Do_start_def)
      then show ?thesis by (rule that(1))
    next
      case fsize: False
      show ?thesis
      proof (cases "http_Get E (Src_Url req)")
        case (Inl respErr)
        with P mime fsize
        have "Do_start E this req = failed (''retrieve resource data failed, '' @ respErr)"
          by (simp add: Do_start_def)
        then show ?thesis by (rule that(1))
      next
        case get: (Inr resResp)
        show ?thesis
        proof (cases "StatusCode resResp = 200")
          case False
          with P mime fsize get
          have "Do_start E this req = failed (''retrieve resource data failed, '' @ Status resResp)"
            by (simp add: Do_start_def)
          then show ?thesis by (rule that(1))
        next
          case ok: True
          show ?thesis
          proof (cases "Body resResp")
            case (Inl readErr)
            with P mime fsize get ok
            have "Do_start E this req = failed (''read resource data failed, '' @ readErr)"
              by (simp add: Do_start_def)
            then show ?thesis by (rule that(1))
          next
            case body: (Inr respData)
            show ?thesis
            proof (cases "zip_NewReader E respData")
              case (Inl zipErr)
              with P mime fsize get ok body
              have "Do_start E this req = failed (''invalid zip file, '' @ zipErr)"
                by (simp add: Do_start_def)
              then show ?thesis by (rule that(1))
            next
              case zip: (Inr zipFiles)
              show ?thesis
              proof (cases "int (length zipFiles) > maxFileCount this")
                case True
                with P mime fsize get ok body zip
                have "Do_start E this req = failed ''zip files count exceeds the limit''"
                  by (simp add: Do_start_def)
                then show ?thesis by (rule that(1))
              next
                case count: False
                show ?thesis
                proof (cases "check_file_size this zipFiles")
                  case False
                  with P mime fsize get ok body zip count
                  have "Do_start E this req = failed ''zip file length exceeds the limit''"
                    by (simp add: Do_start_def)
                  then show ?thesis by (rule that(1))
                next
                  case True
                  with P mime fsize get ok body zip count
                  have "Do_start E this req = init\<lparr>bucket := b, prefix := p, overwrite := ow,
                      policy_Scope := b, pc := Loop zipFiles\<rparr>"
                    by (simp add: Do_start_def)
                  with P mime fsize get ok body zip count True show ?thesis
                    by (intro that(2)) (simp_all add: not_less)
                qed
              qed
            qed
          qed
        qed
      qed
    qed
  qed
qed

lemma Do_start_Loop:
  assumes "pc (Do_start E this req) = Loop zipFiles"
  shows "check_file_size this zipFiles \<and> int (length zipFiles) \<le> maxFileCount this
    \<and> uploadWg (Do_start E this req) = [] \<and> puts (Do_start E this req) = []
    \<and> Files (unzipResult (Do_start E this req)) = [] \<and> uploadCounter (Do_start E this req) = 0"
proof (cases rule: Do_start_cases [where E = E and this = this and req = req])
  case (fatal err)
  with assms show ?thesis by (simp add: failed_fields)
next
  case (loop b p ow resResp respData zfs)
  with assms show ?thesis by (simp add: init_def)
qed

text \<open>The start state is at the loop exactly when every pre-check passes.\<close>

lemma Do_start_Loop_iff:
  "pc (Do_start E this req) = Loop zipFiles \<longleftrightarrow>
     (\<exists>b p ow resResp respData.
        parse E (Cmd req) = Inr (b, p, ow)
        \<and> (Src_MimeType req = ''application/zip''
             \<or> Src_MimeType req = ''application/x-zip-compressed'')
        \<and> Src_Fsize req \<le> maxZipFileLength this
        \<and> http_Get E (Src_Url req) = Inr resResp \<and> StatusCode resResp = 200
        \<and> Body resResp = Inr respData \<and> zip_NewReader E respData = Inr zipFiles
        \<and> int (length zipFiles) \<le> maxFileCount this
        \<and> (\<forall>zf \<in> set zipFiles. UncompressedSize64 zf \<le> maxFileLength this))"
  (is "?l \<longleftrightarrow> ?r")
proof
  assume l: ?l
  show ?r
  proof (cases rule: Do_start_cases [where E = E and this = this and req = req])
    case (fatal err)
    with l show ?thesis by (simp add: failed_fields)
  next
    case (loop b p ow resResp respData zfs)
    from loop(10) l have "zfs = zipFiles" by (simp add: init_def)
    with loop show ?thesis by (auto simp: check_file_size_iff)
  qed
next
  assume ?r
  then obtain b p ow resResp respData where
    "parse E (Cmd req) = Inr (b, p, ow)"
    "Src_MimeType req = ''application/zip'' \<or> Src_MimeType req = ''application/x-zip-compressed''"
    "Src_Fsize req \<le> maxZipFileLength this"
    "http_Get E (Src_Url req) = Inr resResp" "StatusCode resResp = 200"
    "Body resResp = Inr respData" "zip_NewReader E respData = Inr zipFiles"
    "int (length zipFiles) \<le> maxFileCount this"
    "check_file_size this zipFiles"
    by (auto simp: check_file_size_iff)
  then show ?l
    by (simp add: Do_start_def init_def not_less [symmetric])
qed

lemma task_done_fields [simp]:
  "pc (task_done i ret s) = pc s" "prefix (task_done i ret s) = prefix s"
  "bucket (task_done i ret s) = bucket s" "overwrite (task_done i ret s) = overwrite s"
  "uploadCounter (task_done i ret s) = uploadCounter s"
  by (simp_all add: task_done_def split: prod.splits)

lemma main_step_fields [simp]:
  "prefix (main_step E this s) = prefix s" "puts (main_step E this s) = puts s"
  "unzipResult (main_step E this s) = unzipResult s"
  by (cases rule: main_step_cases [where s = s and E = E and this = this]; simp)+

lemma run_prefix [simp]: "prefix (run E this sched s) = prefix s"
  by (rule run_invariant) simp_all

lemma task_done_0:
  "uploadWg s = t # ts \<Longrightarrow> uploadWg (task_done 0 ret s) = ts"
  by (simp add: task_done_def split: prod.splits)

lemma drain:
  "\<exists>sched. uploadWg (run E this sched s) = [] \<and> pc (run E this sched s) = pc s"
proof (induction "length (uploadWg s)" arbitrary: s)
  case 0
  then have "uploadWg (run E this [] s) = [] \<and> pc (run E this [] s) = pc s" by simp
  then show ?case by blast
next
  case (Suc n)
  then obtain t ts where w: "uploadWg s = t # ts" by (cases "uploadWg s") auto
  let ?s = "task_done 0 (Inr []) s"
  from w Suc.hyps(2) have "n = length (uploadWg ?s)" by (simp add: task_done_0)
  from Suc.hyps(1) [OF this] obtain sched
    where "uploadWg (run E this sched ?s) = []" "pc (run E this sched ?s) = pc ?s" by blast
  then have "uploadWg (run E this (Done 0 (Inr []) # sched) s) = []
      \<and> pc (run E this (Done 0 (Inr []) # sched) s) = pc s"
    by simp
  then show ?case by blast
qed

lemma advance:
  assumes "pc s = Loop (zf # rest)"
  shows "\<exists>sched. (well_formed E zf \<longrightarrow> pc (run E this sched s) = Loop rest)
     \<and> (\<not> well_formed E zf \<longrightarrow> (\<exists>err. pc (run E this sched s) = Returned (Inl err)))"
proof (cases rule: main_step_cases [where s = s and E = E and this = this])
  case (block zf' rest' n d t scope)
  let ?s = "main_step E this s"
  from drain [of E this ?s] obtain dr
    where dr: "uploadWg (run E this dr ?s) = []" "pc (run E this dr ?s) = pc ?s" by blast
  let ?s' = "run E this dr ?s"
  from block dr have "pc ?s' = Barrier t rest'" by simp
  with dr(1) have "pc (main_step E this ?s') = Loop rest'" by (simp add: main_step_def)
  then have "pc (run E this (Main # dr @ [Main]) s) = Loop rest'"
    by (simp add: run_append)
  moreover from block assms have "well_formed E zf" "rest' = rest"
    by (simp_all add: well_formed_def)
  ultimately show ?thesis by blast
qed (use assms in \<open>(intro exI [of _ "[Main]"], simp add: well_formed_def)+\<close>)

lemma reach_return:
  assumes "\<forall>zf \<in> set es. well_formed E zf" and "pc s = Loop es"
  shows "\<exists>sched res. pc (run E this sched s) = Returned (Inr res)"
  using assms
proof (induction es arbitrary: s)
  case Nil
  from drain [of E this s] obtain dr
    where dr: "uploadWg (run E this dr s) = []" "pc (run E this dr s) = pc s" by blast
  let ?s = "run E this dr s"
  from Nil dr have "pc (main_step E this ?s) = Join" "uploadWg (main_step E this ?s) = []"
    by (simp_all add: main_step_def)
  then have "pc (main_step E this (main_step E this ?s)) = Returned (Inr (unzipResult (main_step E this ?s)))"
    by (simp add: main_step_def)
  then have "pc (run E this (dr @ [Main, Main]) s) = Returned (Inr (unzipResult (main_step E this ?s)))"
    by (simp add: run_append)
  then show ?case by blast
next
  case (Cons zf rest)
  from advance [OF Cons.prems(2), of E this] Cons.prems(1) obtain a
    where a: "pc (run E this a s) = Loop rest" by auto
  from Cons.IH [OF _ a] Cons.prems(1) obtain sched res
    where "pc (run E this sched (run E this a s)) = Returned (Inr res)" by auto
  then have "pc (run E this (a @ sched) s) = Returned (Inr res)" by (simp add: run_append)
  then show ?case by blast
qed

lemma reach_fatal:
  assumes "\<exists>zf \<in> set es. \<not> well_formed E zf" and "pc s = Loop es"
  shows "\<exists>sched err. pc (run E this sched s) = Returned (Inl err)"
  using assms
proof (induction es arbitrary: s)
  case Nil
  then show ?case by simp
next
  case (Cons zf rest)
  from advance [OF Cons.prems(2), of E this] obtain a
    where a: "well_formed E zf \<longrightarrow> pc (run E this a s) = Loop rest"
      "\<not> well_formed E zf \<longrightarrow> (\<exists>err. pc (run E this a s) = Returned (Inl err))" by auto
  show ?case
  proof (cases "well_formed E zf")
    case True
    with a have l: "pc (run E this a s) = Loop rest" by simp
    from True Cons.prems(1) have "\<exists>zf \<in> set rest. \<not> well_formed E zf" by auto
    from Cons.IH [OF this l] obtain sched err
      where "pc (run E this sched (run E this a s)) = Returned (Inl err)" by auto
    then have "pc (run E this (a @ sched) s) = Returned (Inl err)" by (simp add: run_append)
    then show ?thesis by blast
  next
    case False
    with a show ?thesis by blast
  qed
qed

lemma example_fetch:
  "http_Get (example_env zipFiles) (Src_Url example_req) = Inr example_resp"
  "Body example_resp = Inr []"
  "zip_NewReader (example_env zipFiles) [] = Inr zipFiles"
  "StatusCode example_resp = 200"
  by (simp_all add: example_env_def example_resp_def)

lemma example_parse: "parse (example_env zipFiles) (Cmd example_req) = Inr (''bkt'', ''out/'', False)"
  by (simp add: example_env_def parse_def)

lemma example_accepted:
  "\<not> isl (parse (example_env zipFiles) (Cmd example_req))
   \<and> Src_MimeType example_req \<in> {''application/zip'', ''application/x-zip-compressed''}
   \<and> Src_Fsize example_req \<le> maxZipFileLength example_Unzipper
   \<and> StatusCode example_resp = 200"
  by (simp add: example_parse example_fetch)
     (simp add: example_req_def example_Unzipper_def UNZIP_MAX_ZIP_FILE_LENGTH_def)

lemma InitConfig_defaults:
  "InitConfig this (Decoded \<lparr>AccessKey = ''ak'', SecretKey = ''sk'', UnzipMaxZipFileLength = 0,
      UnzipMaxFileLength = 0, UnzipMaxFileCount = 0\<rparr>) = Inr example_Unzipper"
  by (simp add: InitConfig_def example_Unzipper_def)

section \<open>The pre-checks\<close>

lemma Do_failed:
  assumes "Do_start E this req = failed err"
  shows "Do E this req sched = failed err"
  using assms by (simp add: Do_def run_failed)

lemma Do_start_count:
  assumes "http_Get E (Src_Url req) = Inr resResp" and "Body resResp = Inr respData"
    and "zip_NewReader E respData = Inr zipFiles"
    and "int (length zipFiles) > maxFileCount this"
  shows "\<exists>err. Do_start E this req = failed err"
proof (cases rule: Do_start_cases [where E = E and this = this and req = req])
  case (fatal err)
  then show ?thesis by blast
next
  case (loop b p ow resResp' respData' zipFiles')
  with assms show ?thesis by simp
qed

lemma Do_start_size:
  assumes "http_Get E (Src_Url req) = Inr resResp" and "Body resResp = Inr respData"
    and "zip_NewReader E respData = Inr zipFiles"
    and "\<exists>zf \<in> set zipFiles. UncompressedSize64 zf > maxFileLength this"
  shows "\<exists>err. Do_start E this req = failed err"
proof (cases rule: Do_start_cases [where E = E and this = this and req = req])
  case (fatal err)
  then show ?thesis by blast
next
  case (loop b p ow resResp' respData' zipFiles')
  with assms have "check_file_size this zipFiles" by simp
  with assms(4) show ?thesis by (auto simp: check_file_size_iff not_le [symmetric])
qed

text \<open>
  C9. If the archive has more entries than the configured maximum, \<^verbatim>\<open>Do\<close> returns
  an error whatever the schedule, no call is made to the store, no goroutine is launched
  and no outcome is recorded. When the request gets as far as the count check, the error
  is the one of that check.
\<close>

theorem too_many_entries:
  assumes "http_Get E (Src_Url req) = Inr resResp" and "Body resResp = Inr respData"
    and "zip_NewReader E respData = Inr zipFiles"
    and "int (length zipFiles) > maxFileCount this"
  shows "(\<exists>err. pc (Do E this req sched) = Returned (Inl err))
       \<and> puts (Do E this req sched) = []
       \<and> uploadWg (Do E this req sched) = []
       \<and> Files (unzipResult (Do E this req sched)) = []
       \<and> (\<not> isl (parse E (Cmd req))
            \<and> Src_MimeType req \<in> {''application/zip'', ''application/x-zip-compressed''}
            \<and> Src_Fsize req \<le> maxZipFileLength this \<and> StatusCode resResp = 200
          \<longrightarrow> pc (Do E this req sched) = Returned (Inl ''zip files count exceeds the limit''))"
proof -
  from Do_start_count [OF assms] obtain err where e: "Do_start E this req = failed err" ..
  then have d: "Do E this req sched = failed err" by (rule Do_failed)
  have "pc (Do_start E this req) = Returned (Inl ''zip files count exceeds the limit'')"
    if "\<not> isl (parse E (Cmd req))"
      "Src_MimeType req \<in> {''application/zip'', ''application/x-zip-compressed''}"
      "Src_Fsize req \<le> maxZipFileLength this" "StatusCode resResp = 200"
    using that assms
    by (cases "parse E (Cmd req)") (auto simp: Do_start_def failed_fields split: prod.splits)
  with e d show ?thesis by (auto simp: failed_fields)
qed

text \<open>Eleven files against the default maximum of 10.\<close>

theorem too_many_entries_witness:
  "maxFileCount example_Unzipper = 10 \<and> length eleven_files = 11
   \<and> pc (Do (example_env eleven_files) example_Unzipper example_req probe_sched)
       = Returned (Inl ''zip files count exceeds the limit'')
   \<and> puts (Do (example_env eleven_files) example_Unzipper example_req probe_sched) = []
   \<and> Files (unzipResult (Do (example_env eleven_files) example_Unzipper example_req probe_sched)) = []"
proof -
  have c: "maxFileCount example_Unzipper = 10 \<and> length eleven_files = 11"
    by (simp add: eleven_files_def example_Unzipper_def UNZIP_MAX_FILE_COUNT_def)
  then have h: "int (length eleven_files) > maxFileCount example_Unzipper" by simp
  from too_many_entries [OF example_fetch(1-3) h, where sched = probe_sched] example_accepted c
  show ?thesis by blast
qed

text \<open>
  C3. If some entry of the archive, at any position, declares an uncompressed size above
  the per-entry limit, \<^verbatim>\<open>Do\<close> returns an error whatever the schedule, and no call
  is made to the store and no goroutine is launched: the sizes of all entries are checked
  before the upload loop starts. When the request gets as far as the size check, the
  error is the one of that check.
\<close>

theorem oversized_entry:
  assumes "http_Get E (Src_Url req) = Inr resResp" and "Body resResp = Inr respData"
    and "zip_NewReader E respData = Inr zipFiles"
    and "\<exists>zf \<in> set zipFiles. UncompressedSize64 zf > maxFileLength this"
  shows "(\<exists>err. pc (Do E this req sched) = Returned (Inl err))
       \<and> puts (Do E this req sched) = []
       \<and> uploadWg (Do E this req sched) = []
       \<and> Files (unzipResult (Do E this req sched)) = []
       \<and> (\<not> isl (parse E (Cmd req))
            \<and> Src_MimeType req \<in> {''application/zip'', ''application/x-zip-compressed''}
            \<and> Src_Fsize req \<le> maxZipFileLength this \<and> StatusCode resResp = 200
            \<and> int (length zipFiles) \<le> maxFileCount this
          \<longrightarrow> pc (Do E this req sched) = Returned (Inl ''zip file length exceeds the limit''))"
proof -
  from Do_start_size [OF assms] obtain err where e: "Do_start E this req = failed err" ..
  then have d: "Do E this req sched = failed err" by (rule Do_failed)
  from assms(4) have n: "\<not> check_file_size this zipFiles"
    by (auto simp: check_file_size_iff not_le)
  have "pc (Do_start E this req) = Returned (Inl ''zip file length exceeds the limit'')"
    if "\<not> isl (parse E (Cmd req))"
      "Src_MimeType req \<in> {''application/zip'', ''application/x-zip-compressed''}"
      "Src_Fsize req \<le> maxZipFileLength this" "StatusCode resResp = 200"
      "int (length zipFiles) \<le> maxFileCount this"
    using that assms(1-3) n
    by (cases "parse E (Cmd req)") (auto simp: Do_start_def failed_fields split: prod.splits)
  with e d show ?thesis by (auto simp: failed_fields)
qed

text \<open>A small file followed by an entry of 100 MiB and one byte, under the default limit.\<close>

theorem oversized_entry_witness:
  "last [file_entry ''a.txt'' 10, big_entry] = big_entry
   \<and> UncompressedSize64 big_entry > maxFileLength example_Unzipper
   \<and> pc (Do (example_env [file_entry ''a.txt'' 10, big_entry]) example_Unzipper example_req probe_sched)
       = Returned (Inl ''zip file length exceeds the limit'')
   \<and> puts (Do (example_env [file_entry ''a.txt'' 10, big_entry]) example_Unzipper example_req
        probe_sched) = []
   \<and> uploadWg (Do (example_env [file_entry ''a.txt'' 10, big_entry]) example_Unzipper example_req
        probe_sched) = []"
proof -
  have b: "UncompressedSize64 big_entry > maxFileLength example_Unzipper"
    by (simp add: big_entry_def example_Unzipper_def UNZIP_MAX_FILE_LENGTH_def)
  then have h: "\<exists>zf \<in> set [file_entry ''a.txt'' 10, big_entry].
      UncompressedSize64 zf > maxFileLength example_Unzipper" by simp
  have c: "int (length [file_entry ''a.txt'' 10, big_entry]) \<le> maxFileCount example_Unzipper"
    by (simp add: example_Unzipper_def UNZIP_MAX_FILE_COUNT_def)
  from oversized_entry [OF example_fetch(1-3) h, where sched = probe_sched] example_accepted b c
  show ?thesis by simp
qed

section \<open>The batch barrier\<close>

lemma task_done_uploadWg:
  "length (uploadWg (task_done i ret s)) \<le> length (uploadWg s)"
  by (auto simp: task_done_def split: prod.splits)

lemma task_done_lengths:
  "i < length (uploadWg s) \<Longrightarrow>
     Suc (length (uploadWg (task_done i ret s))) = length (uploadWg s)
     \<and> length (puts (task_done i ret s)) = Suc (length (puts s))"
  by (auto simp: task_done_def split: prod.splits)

lemma task_done_out_of_range: "\<not> i < length (uploadWg s) \<Longrightarrow> task_done i ret s = s"
  by (simp add: task_done_def)

lemma wg_inv_main_step: "wg_inv s \<Longrightarrow> wg_inv (main_step E this s)"
proof (cases rule: main_step_cases [where s = s and E = E and this = this])
  case (launch zf rest n d t scope)
  assume "wg_inv s"
  with launch show ?thesis
    unfolding wg_inv_def MAX_UPLOAD_WORKERS_def by (simp add: mod_Suc split: if_splits)
next
  case (block zf rest n d t scope)
  assume "wg_inv s"
  with block show ?thesis
    unfolding wg_inv_def MAX_UPLOAD_WORKERS_def by simp
qed (simp_all add: wg_inv_def MAX_UPLOAD_WORKERS_def)

lemma wg_inv_task_done: "wg_inv s \<Longrightarrow> wg_inv (task_done i ret s)"
  using task_done_uploadWg [of i ret s]
  by (auto simp: wg_inv_def split: pc.splits)

lemma count_inv_main_step: "count_inv s \<Longrightarrow> count_inv (main_step E this s)"
  by (cases rule: main_step_cases [where s = s and E = E and this = this])
     (simp_all add: count_inv_def)

lemma count_inv_task_done: "count_inv s \<Longrightarrow> count_inv (task_done i ret s)"
proof (cases "i < length (uploadWg s)")
  case True
  assume "count_inv s"
  with task_done_lengths [OF True, of ret] show ?thesis
    by (auto simp: count_inv_def split: pc.splits)
next
  case False
  assume "count_inv s"
  with False show ?thesis by (simp add: task_done_out_of_range)
qed

lemma Do_start_invs: "wg_inv (Do_start E this req) \<and> count_inv (Do_start E this req)"
  by (cases rule: Do_start_cases [where E = E and this = this and req = req])
     (simp_all add: wg_inv_def count_inv_def failed_def init_def)

lemma Do_wg_inv: "wg_inv (Do E this req sched)"
  unfolding Do_def
  by (rule run_invariant) (simp_all add: Do_start_invs wg_inv_main_step wg_inv_task_done)

lemma Do_count_inv: "count_inv (Do E this req sched)"
  unfolding Do_def
  by (rule run_invariant) (simp_all add: Do_start_invs count_inv_main_step count_inv_task_done)

lemma Do_start_bulk:
  "Do_start (example_env bulk_archive) bulk_Unzipper example_req
     = loop_state 0 0 0 (Loop bulk_archive)"
  unfolding Do_start_def
  by (simp add: example_parse example_fetch check_file_size_iff)
     (simp add: example_req_def bulk_Unzipper_def example_Unzipper_def many_files_def
       bulk_archive_def truncated_entry_def file_entry_def UNZIP_MAX_ZIP_FILE_LENGTH_def
       UNZIP_MAX_FILE_LENGTH_def loop_state_def init_def)

lemma main_step_f:
  "main_step (example_env zfs) bulk_Unzipper (loop_state c w d (Loop (file_entry ''f'' 1 # es))) =
     (if Suc c mod 100 = 0 then loop_state (Suc c) w d (Barrier f_task es)
      else loop_state (Suc c) (Suc w) d (Loop es))"
  by (simp add: main_step_def loop_state_def decode_name_def example_env_def file_entry_def
      f_task_def bulk_Unzipper_def example_Unzipper_def MAX_UPLOAD_WORKERS_def
      replicate_append_same Let_def)

lemma main_step_barrier:
  "main_step E this (loop_state c 0 d (Barrier f_task es)) = loop_state c 1 d (Loop es)"
  by (simp add: main_step_def loop_state_def)

lemma main_step_truncated:
  "main_step (example_env zfs) this (loop_state c w d (Loop (truncated_entry # es))) =
     loop_state c w d (Returned (Inl ''unzip the file content failed, unexpected EOF''))"
  by (simp add: main_step_def loop_state_def decode_name_def example_env_def truncated_entry_def)

lemma task_done_f:
  "task_done 0 (Inr ''Fh'') (loop_state c (Suc w) d p) = loop_state c w (Suc d) p"
  by (simp add: task_done_def loop_state_def upload_def f_task_def rputThreshold_def Let_def
      replicate_append_same)

lemma run_mains:
  "c + k < 100 \<Longrightarrow>
   run (example_env zfs) bulk_Unzipper (replicate k Main)
     (loop_state c w d (Loop (many_files k @ es)))
     = loop_state (c + k) (w + k) d (Loop es)"
proof (induction k arbitrary: c w)
  case 0
  then show ?case by (simp add: many_files_def)
next
  case (Suc k)
  from Suc.prems have "Suc c mod 100 \<noteq> 0" by simp
  then have "main_step (example_env zfs) bulk_Unzipper
      (loop_state c w d (Loop (file_entry ''f'' 1 # many_files k @ es)))
      = loop_state (Suc c) (Suc w) d (Loop (many_files k @ es))"
    by (simp add: main_step_f)
  moreover from Suc.prems have "Suc c + k < 100" by simp
  ultimately show ?case using Suc.IH [of "Suc c" "Suc w"] by (simp add: many_files_def)
qed

lemma run_dones:
  "run E this (replicate k (Done 0 (Inr ''Fh''))) (loop_state c (w + k) d p)
     = loop_state c w (d + k) p"
proof (induction k arbitrary: d)
  case 0
  then show ?case by simp
next
  case (Suc k)
  have "task_done 0 (Inr ''Fh'') (loop_state c (Suc (w + k)) d p) = loop_state c (w + k) (Suc d) p"
    by (rule task_done_f)
  with Suc [of "Suc d"] show ?case by simp
qed

lemma bulk_archive_split:
  "bulk_archive = many_files 99 @ file_entry ''f'' 1 # [file_entry ''f'' 1, truncated_entry]"
  using replicate_add [of 99 2 "file_entry ''f'' 1"]
  by (simp add: bulk_archive_def many_files_def numeral_2_eq_2)

lemma Do_hundred_mains:
  "Do (example_env bulk_archive) bulk_Unzipper example_req (replicate 100 Main)
     = loop_state 100 99 0 (Barrier f_task [file_entry ''f'' 1, truncated_entry])"
proof -
  let ?E = "example_env bulk_archive"
  have "run ?E bulk_Unzipper (replicate 99 Main) (loop_state 0 0 0 (Loop bulk_archive))
      = loop_state 99 99 0 (Loop (file_entry ''f'' 1 # [file_entry ''f'' 1, truncated_entry]))"
    using run_mains [where c = 0 and k = 99 and zfs = bulk_archive and w = 0 and d = 0
        and es = "file_entry ''f'' 1 # [file_entry ''f'' 1, truncated_entry]"]
    by (simp add: bulk_archive_split)
  moreover have "replicate 100 Main = replicate 99 Main @ [Main]"
    using replicate_add [of 99 1 Main] by simp
  ultimately show ?thesis
    by (simp add: Do_def Do_start_bulk run_append main_step_f)
qed

text \<open>
  C4. \<open>uploadCounter\<close> counts the goroutines launched (those done, those outstanding
  and the one waiting at the barrier). An iteration that moves the counter to a multiple
  of 100 launches nothing and goes to the barrier; at the barrier the main goroutine
  stays where it is as long as a goroutine is outstanding and launches the pending task
  once none is. Under every schedule at most 100 upload goroutines are outstanding.
\<close>

theorem batch_barrier:
  assumes "s = Do E this req sched"
  shows "length (uploadWg s) \<le> 100
    \<and> uploadCounter s = length (puts s) + length (uploadWg s)
        + (case pc s of Barrier t es \<Rightarrow> 1 | Loop es \<Rightarrow> 0 | Join \<Rightarrow> 0 | Returned r \<Rightarrow> 0)
    \<and> (\<forall>t es. pc s = Barrier t es \<longrightarrow>
          uploadCounter s mod 100 = 0
          \<and> (uploadWg s \<noteq> [] \<longrightarrow> main_step E this s = s)
          \<and> (uploadWg s = [] \<longrightarrow> main_step E this s = s\<lparr>uploadWg := [t], pc := Loop es\<rparr>))
    \<and> (\<forall>zf es. pc s = Loop (zf # es) \<and> uploadCounter (main_step E this s) \<noteq> uploadCounter s \<longrightarrow>
          uploadCounter (main_step E this s) = Suc (uploadCounter s)
          \<and> (if Suc (uploadCounter s) mod 100 = 0
             then uploadWg (main_step E this s) = uploadWg s
                  \<and> (\<exists>t. pc (main_step E this s) = Barrier t es)
             else (\<exists>t. uploadWg (main_step E this s) = uploadWg s @ [t])
                  \<and> pc (main_step E this s) = Loop es))"
proof -
  from Do_wg_inv [of E this req sched] assms have w: "wg_inv s" by simp
  from Do_count_inv [of E this req sched] assms have c: "count_inv s" by simp
  have 1: "length (uploadWg s) \<le> 100"
    using w by (simp add: wg_inv_def MAX_UPLOAD_WORKERS_def)
  have 2: "uploadCounter s = length (puts s) + length (uploadWg s)
        + (case pc s of Barrier t es \<Rightarrow> 1 | Loop es \<Rightarrow> 0 | Join \<Rightarrow> 0 | Returned r \<Rightarrow> 0)"
    using c by (simp add: count_inv_def)
  have 3: "uploadCounter s mod 100 = 0
          \<and> (uploadWg s \<noteq> [] \<longrightarrow> main_step E this s = s)
          \<and> (uploadWg s = [] \<longrightarrow> main_step E this s = s\<lparr>uploadWg := [t], pc := Loop es\<rparr>)"
    if "pc s = Barrier t es" for t es
    using that w by (simp add: wg_inv_def MAX_UPLOAD_WORKERS_def main_step_def)
  have 4: "uploadCounter (main_step E this s) = Suc (uploadCounter s)
          \<and> (if Suc (uploadCounter s) mod 100 = 0
             then uploadWg (main_step E this s) = uploadWg s
                  \<and> (\<exists>t. pc (main_step E this s) = Barrier t es)
             else (\<exists>t. uploadWg (main_step E this s) = uploadWg s @ [t])
                  \<and> pc (main_step E this s) = Loop es)"
    if "pc s = Loop (zf # es)" "uploadCounter (main_step E this s) \<noteq> uploadCounter s" for zf es
    using that
    by (cases rule: main_step_cases [where s = s and E = E and this = this])
       (simp_all add: MAX_UPLOAD_WORKERS_def)
  from 1 2 3 4 show ?thesis by blast
qed

text \<open>
  After 100 iterations over a bulk archive the main goroutine is blocked at the barrier
  with 99 uploads outstanding.
\<close>

theorem batch_barrier_witness:
  "pc (Do (example_env bulk_archive) bulk_Unzipper example_req (replicate 100 Main))
     = Barrier f_task [file_entry ''f'' 1, truncated_entry]
   \<and> uploadCounter (Do (example_env bulk_archive) bulk_Unzipper example_req (replicate 100 Main))
       = 100
   \<and> length (uploadWg (Do (example_env bulk_archive) bulk_Unzipper example_req
        (replicate 100 Main))) = 99
   \<and> length (puts (Do (example_env bulk_archive) bulk_Unzipper example_req
        (replicate 100 Main))) = 0
   \<and> main_step (example_env bulk_archive) bulk_Unzipper
        (Do (example_env bulk_archive) bulk_Unzipper example_req (replicate 100 Main))
      = Do (example_env bulk_archive) bulk_Unzipper example_req (replicate 100 Main)"
proof -
  let ?s = "Do (example_env bulk_archive) bulk_Unzipper example_req (replicate 100 Main)"
  have p: "pc ?s = Barrier f_task [file_entry ''f'' 1, truncated_entry]"
    "length (uploadWg ?s) = 99" "puts ?s = []"
    by (simp_all add: Do_hundred_mains loop_state_def)
  from batch_barrier [OF refl, of "example_env bulk_archive" bulk_Unzipper example_req
      "replicate 100 Main"] p
  show ?thesis by auto
qed

section \<open>The report\<close>

lemma upload_Key [simp]: "Key (snd (upload t ret)) = fileName t"
  by (simp add: upload_def Let_def split: sum.splits)

lemma upload_recorded: "recorded (fst (upload t ret), ret) = snd (upload t ret)"
  by (cases ret) (simp_all add: upload_def Let_def)

lemma mset_map_remove_nth:
  "i < length xs \<Longrightarrow>
     mset (map f (take i xs @ drop (Suc i) xs)) + {#f (xs ! i)#} = mset (map f xs)"
proof -
  assume "i < length xs"
  then have "xs = take i xs @ xs ! i # drop (Suc i) xs" by (rule id_take_nth_drop)
  then have "mset (map f xs) = mset (map f (take i xs @ xs ! i # drop (Suc i) xs))" by simp
  then show ?thesis by simp
qed

lemma task_done_in_range:
  "i < length (uploadWg s) \<Longrightarrow>
     task_done i ret s =
       s\<lparr>uploadWg := take i (uploadWg s) @ drop (Suc i) (uploadWg s),
         puts := puts s @ [(fst (upload (uploadWg s ! i) ret), ret)],
         unzipResult := \<lparr>Files = Files (unzipResult s) @ [snd (upload (uploadWg s ! i) ret)]\<rparr>\<rparr>"
  by (simp add: task_done_def split: prod.splits)

lemma target_keys_simps [simp]:
  "target_keys E p [] = []"
  "IsDir zf \<Longrightarrow> target_keys E p (zf # zfs) = target_keys E p zfs"
  "\<not> IsDir zf \<Longrightarrow> target_keys E p (zf # zfs) = (p @ decodedName E zf) # target_keys E p zfs"
  by (simp_all add: target_keys_def)

lemma keys_inv_main_step: "keys_inv E K s \<Longrightarrow> keys_inv E K (main_step E this s)"
  by (cases rule: main_step_cases [where s = s and E = E and this = this])
     (simp_all add: keys_inv_def decodedName_def)

lemma keys_inv_task_done: "keys_inv E K s \<Longrightarrow> keys_inv E K (task_done i ret s)"
proof (cases "i < length (uploadWg s)")
  case True
  assume k: "keys_inv E K s"
  from mset_map_remove_nth [OF True, of fileName]
  have m: "mset (map fileName (uploadWg s)) =
      mset (map fileName (take i (uploadWg s) @ drop (Suc i) (uploadWg s)))
        + {#fileName (uploadWg s ! i)#}" by simp
  from True have "pc s \<noteq> Returned (Inr res)" if "uploadWg s = []" for res
    using that by simp
  show ?thesis
  proof (cases "pc s")
    case (Returned r)
    with k True show ?thesis
      by (cases r) (auto simp: keys_inv_def task_done_in_range)
  qed (use k True m in \<open>simp_all add: keys_inv_def task_done_in_range\<close>)
next
  case False
  assume "keys_inv E K s"
  with False show ?thesis by (simp add: task_done_out_of_range)
qed

lemma good_inv_main_step: "good_inv E s \<Longrightarrow> good_inv E (main_step E this s)"
  by (cases rule: main_step_cases [where s = s and E = E and this = this])
     (auto simp: good_inv_def well_formed_def)

lemma good_inv_task_done: "good_inv E s \<Longrightarrow> good_inv E (task_done i ret s)"
  by (simp add: good_inv_def)

lemma log_inv_main_step: "log_inv s \<Longrightarrow> log_inv (main_step E this s)"
  by (simp add: log_inv_def)

lemma log_inv_task_done: "log_inv s \<Longrightarrow> log_inv (task_done i ret s)"
  by (cases "i < length (uploadWg s)")
     (simp_all add: log_inv_def task_done_in_range task_done_out_of_range upload_recorded)

lemma Do_start_parsed:
  assumes "pc (Do_start E this req) = Loop zipFiles" and "parse E (Cmd req) = Inr (b, p, ow)"
  shows "Do_start E this req = init\<lparr>bucket := b, prefix := p, overwrite := ow, policy_Scope := b,
         pc := Loop zipFiles\<rparr>"
proof (cases rule: Do_start_cases [where E = E and this = this and req = req])
  case (fatal err)
  with assms show ?thesis by (simp add: failed_fields)
next
  case (loop b' p' ow' resResp respData zfs)
  with assms show ?thesis by (simp add: init_def)
qed

lemma Do_log_inv: "log_inv (Do E this req sched)"
  unfolding Do_def
proof (rule run_invariant)
  show "log_inv (Do_start E this req)"
    by (cases rule: Do_start_cases [where E = E and this = this and req = req])
       (simp_all add: log_inv_def failed_def init_def)
qed (simp_all add: log_inv_main_step log_inv_task_done)

lemma Do_keys_inv:
  assumes "pc (Do_start E this req) = Loop zipFiles" and "parse E (Cmd req) = Inr (b, p, ow)"
  shows "keys_inv E (mset (target_keys E p zipFiles)) (Do E this req sched)"
  unfolding Do_def
proof (rule run_invariant)
  show "keys_inv E (mset (target_keys E p zipFiles)) (Do_start E this req)"
    by (simp add: Do_start_parsed [OF assms] keys_inv_def init_def)
qed (simp_all add: keys_inv_main_step keys_inv_task_done)

lemma Do_good_inv:
  assumes "pc (Do_start E this req) = Loop zipFiles" and "\<forall>zf \<in> set zipFiles. well_formed E zf"
  shows "good_inv E (Do E this req sched)"
  unfolding Do_def
proof (rule run_invariant)
  show "good_inv E (Do_start E this req)"
    using assms by (simp add: good_inv_def)
qed (simp_all add: good_inv_main_step good_inv_task_done)

lemma ret_inv_main_step: "ret_inv s \<Longrightarrow> ret_inv (main_step E this s)"
  by (cases rule: main_step_cases [where s = s and E = E and this = this])
     (simp_all add: ret_inv_def)

lemma ret_inv_task_done: "ret_inv s \<Longrightarrow> ret_inv (task_done i ret s)"
  by (cases "i < length (uploadWg s)")
     (auto simp: ret_inv_def task_done_out_of_range)

lemma Do_ret_inv: "ret_inv (Do E this req sched)"
  unfolding Do_def
proof (rule run_invariant)
  show "ret_inv (Do_start E this req)"
    by (cases rule: Do_start_cases [where E = E and this = this and req = req])
       (simp_all add: ret_inv_def failed_def init_def)
qed (simp_all add: ret_inv_main_step ret_inv_task_done)

lemma Do_returned_keys:
  assumes "pc (Do_start E this req) = Loop zipFiles" and "parse E (Cmd req) = Inr (b, p, ow)"
    and "pc (Do E this req sched) = Returned (Inr res)"
  shows "mset (map Key (Files res)) = mset (target_keys E p zipFiles)"
    and "length (Files res) = length (filter (\<lambda>zf. \<not> IsDir zf) zipFiles)"
proof -
  from Do_keys_inv [OF assms(1,2), of sched] assms(3)
  show k: "mset (map Key (Files res)) = mset (target_keys E p zipFiles)"
    by (auto simp: keys_inv_def)
  have "length (Files res) = size (mset (map Key (Files res)))" by simp
  also have "\<dots> = length (target_keys E p zipFiles)" by (simp only: k size_mset)
  finally show "length (Files res) = length (filter (\<lambda>zf. \<not> IsDir zf) zipFiles)"
    by (simp add: target_keys_def)
qed

lemma Do_returned_length:
  assumes "pc (Do_start E this req) = Loop zipFiles"
    and "pc (Do E this req sched) = Returned (Inr res)"
  shows "length (Files res) = length (filter (\<lambda>zf. \<not> IsDir zf) zipFiles)"
proof (cases rule: Do_start_cases [where E = E and this = this and req = req])
  case (fatal err)
  with assms(1) show ?thesis by (simp add: failed_fields)
next
  case (loop b p ow resResp respData zfs)
  from Do_returned_keys(2) [OF assms(1) loop(1) assms(2)] show ?thesis .
qed

lemma example_start:
  "int (length zfs) \<le> 10 \<Longrightarrow> \<forall>zf \<in> set zfs. UncompressedSize64 zf \<le> 104857600 \<Longrightarrow>
   Do_start (example_env zfs) example_Unzipper example_req
     = init\<lparr>bucket := ''bkt'', prefix := ''out/'', overwrite := False, policy_Scope := ''bkt'',
         pc := Loop zfs\<rparr>"
  unfolding Do_start_def
  by (simp add: example_parse example_fetch check_file_size_iff)
     (simp add: example_req_def example_Unzipper_def UNZIP_MAX_ZIP_FILE_LENGTH_def
       UNZIP_MAX_FILE_LENGTH_def UNZIP_MAX_FILE_COUNT_def)

lemma scenario_start:
  "Do_start (example_env scenario_archive) example_Unzipper example_req
     = init\<lparr>bucket := ''bkt'', prefix := ''out/'', overwrite := False, policy_Scope := ''bkt'',
         pc := Loop scenario_archive\<rparr>"
  by (rule example_start) (simp_all add: scenario_archive_def file_entry_def dir_entry_def)

lemma scenario_well_formed:
  "\<forall>zf \<in> set scenario_archive. well_formed (example_env scenario_archive) zf"
  by (simp add: scenario_archive_def file_entry_def dir_entry_def well_formed_def
      decode_name_def example_env_def)

lemma scenario_run:
  "Do (example_env scenario_archive) example_Unzipper example_req scenario_sched =
     \<lparr>bucket = ''bkt'', prefix = ''out/'', overwrite = False,
      pc = Returned (Inr \<lparr>Files = [\<lparr>Key = ''out/b/c.txt'', Hash = ''Fh2'', Error = []\<rparr>,
                                    \<lparr>Key = ''out/a.txt'', Hash = ''Fh1'', Error = []\<rparr>]\<rparr>),
      policy_Scope = ''bkt'',
      unzipResult = \<lparr>Files = [\<lparr>Key = ''out/b/c.txt'', Hash = ''Fh2'', Error = []\<rparr>,
                                    \<lparr>Key = ''out/a.txt'', Hash = ''Fh1'', Error = []\<rparr>]\<rparr>,
      uploadCounter = 2, uploadWg = [],
      puts = [(FioPut ''ak:bkt'' ''out/b/c.txt'' (replicate 20 0), Inr ''Fh2''),
              (FioPut ''ak:bkt'' ''out/a.txt'' (replicate 10 0), Inr ''Fh1'')]\<rparr>"
  unfolding Do_def scenario_start
  by (simp add: scenario_archive_def file_entry_def dir_entry_def
      scenario_sched_def main_step_def task_done_def upload_def init_def
      decode_name_def example_env_def example_Unzipper_def MAX_UPLOAD_WORKERS_def
      rputThreshold_def Let_def)

text \<open>
  C1. When the pre-checks pass, every report that \<^verbatim>\<open>Do\<close> returns, under any
  schedule and whatever the store answers, has as many outcomes as the archive has entries
  that are not directories, and the multiset of its keys is the multiset of
  \<open>prefix + decodedName\<close> over those entries. When every entry is well formed, some
  schedule returns a report and no schedule returns an error.
\<close>

theorem outcomes_match_entries:
  assumes "pc (Do_start E this req) = Loop zipFiles" and "parse E (Cmd req) = Inr (b, p, ow)"
  shows "(\<forall>res. pc (Do E this req sched) = Returned (Inr res) \<longrightarrow>
            mset (map Key (Files res)) = mset (target_keys E p zipFiles)
            \<and> length (Files res) = length (filter (\<lambda>zf. \<not> IsDir zf) zipFiles))
       \<and> ((\<forall>zf \<in> set zipFiles. well_formed E zf) \<longrightarrow>
            (\<exists>sched' res. pc (Do E this req sched') = Returned (Inr res))
            \<and> (\<forall>err. pc (Do E this req sched) \<noteq> Returned (Inl err)))"
proof (intro conjI allI impI)
  fix res
  assume r: "pc (Do E this req sched) = Returned (Inr res)"
  from Do_returned_keys [OF assms r]
  show "mset (map Key (Files res)) = mset (target_keys E p zipFiles)"
    and "length (Files res) = length (filter (\<lambda>zf. \<not> IsDir zf) zipFiles)" .
next
  assume "\<forall>zf \<in> set zipFiles. well_formed E zf"
  from reach_return [OF this assms(1), where this = this]
  show "\<exists>sched' res. pc (Do E this req sched') = Returned (Inr res)"
    by (simp add: Do_def)
next
  fix err
  assume "\<forall>zf \<in> set zipFiles. well_formed E zf"
  from Do_good_inv [OF assms(1) this, where sched = sched]
  show "pc (Do E this req sched) \<noteq> Returned (Inl err)"
    by (auto simp: good_inv_def)
qed

text \<open>
  The archive \<open>a.txt\<close>, \<open>b/\<close>, \<open>b/c.txt\<close> under the prefix \<open>out/\<close>, with the second
  upload finishing first.
\<close>

theorem outcomes_match_entries_witness:
  "pc (Do (example_env scenario_archive) example_Unzipper example_req scenario_sched)
     = Returned (Inr \<lparr>Files = [\<lparr>Key = ''out/b/c.txt'', Hash = ''Fh2'', Error = []\<rparr>,
                                    \<lparr>Key = ''out/a.txt'', Hash = ''Fh1'', Error = []\<rparr>]\<rparr>)
   \<and> target_keys (example_env scenario_archive) ''out/'' scenario_archive
       = [''out/a.txt'', ''out/b/c.txt'']
   \<and> mset [''out/b/c.txt'', ''out/a.txt'']
       = mset (target_keys (example_env scenario_archive) ''out/'' scenario_archive)
   \<and> length (filter (\<lambda>zf. \<not> IsDir zf) scenario_archive) = 2"
proof -
  let ?E = "example_env scenario_archive"
  have s: "pc (Do_start ?E example_Unzipper example_req) = Loop scenario_archive"
    by (simp add: scenario_start init_def)
  have r: "pc (Do ?E example_Unzipper example_req scenario_sched)
     = Returned (Inr \<lparr>Files = [\<lparr>Key = ''out/b/c.txt'', Hash = ''Fh2'', Error = []\<rparr>,
                                    \<lparr>Key = ''out/a.txt'', Hash = ''Fh1'', Error = []\<rparr>]\<rparr>)"
    by (simp add: scenario_run)
  have t: "target_keys ?E ''out/'' scenario_archive = [''out/a.txt'', ''out/b/c.txt'']"
    by (simp add: scenario_archive_def file_entry_def dir_entry_def decodedName_def
        decode_name_def example_env_def)
  from outcomes_match_entries [OF s example_parse, where sched = scenario_sched] r
  have "mset (map Key [\<lparr>Key = ''out/b/c.txt'', Hash = ''Fh2'', Error = []\<rparr>,
                                    \<lparr>Key = ''out/a.txt'', Hash = ''Fh1'', Error = []\<rparr>])
       = mset (target_keys ?E ''out/'' scenario_archive)
      \<and> length [\<lparr>Key = ''out/b/c.txt'', Hash = ''Fh2'', Error = []\<rparr>,
                                    \<lparr>Key = ''out/a.txt'', Hash = ''Fh1'', Error = []\<rparr>]
          = length (filter (\<lambda>zf. \<not> IsDir zf) scenario_archive)"
    by simp
  with r t show ?thesis by simp
qed

text \<open>
  C7. Over an archive that passes the pre-checks and whose entries are well formed, a
  failed upload never becomes the error of the call: the goroutine that fails leaves the
  main goroutine where it is and appends an outcome with the key and the error message;
  the report is at every moment the list of the outcomes of the calls made so far, in
  either strategy; every return of \<^verbatim>\<open>Do\<close> is a success carrying one outcome per entry
  that is not a directory, and some schedule returns.
\<close>

theorem upload_failures_isolated:
  assumes "pc (Do_start E this req) = Loop zipFiles"
    and "\<forall>zf \<in> set zipFiles. well_formed E zf"
    and "s = Do E this req sched"
  shows "Files (unzipResult s) = map recorded (puts s)
       \<and> (\<forall>r. pc s = Returned r \<longrightarrow>
            (\<exists>res. r = Inr res \<and> Files res = map recorded (puts s)
               \<and> length (Files res) = length (filter (\<lambda>zf. \<not> IsDir zf) zipFiles)))
       \<and> (\<exists>sched' res. pc (Do E this req sched') = Returned (Inr res))
       \<and> (\<forall>i err. pc (task_done i (Inl err) s) = pc s
            \<and> (i < length (uploadWg s) \<longrightarrow>
                 Files (unzipResult (task_done i (Inl err) s)) = Files (unzipResult s) @
                   [\<lparr>Key = fileName (uploadWg s ! i), Hash = [],
                     Error = ''save unzip file to bucket error, '' @ err\<rparr>]))"
proof (intro conjI allI impI)
  from Do_log_inv [of E this req sched] assms(3)
  show l: "Files (unzipResult s) = map recorded (puts s)" by (simp add: log_inv_def)
  show "\<exists>res. r = Inr res \<and> Files res = map recorded (puts s)
               \<and> length (Files res) = length (filter (\<lambda>zf. \<not> IsDir zf) zipFiles)"
    if r: "pc s = Returned r" for r
  proof (cases r)
    case (Inl err)
    with Do_good_inv [OF assms(1,2), where sched = sched] r assms(3) show ?thesis
      by (simp add: good_inv_def)
  next
    case (Inr res)
    with r assms(3) have p: "pc (Do E this req sched) = Returned (Inr res)" by simp
    with Do_ret_inv [of E this req sched] assms(3) have "res = unzipResult s"
      by (simp add: ret_inv_def)
    with l Do_returned_length [OF assms(1) p] Inr show ?thesis by simp
  qed
  from reach_return [OF assms(2,1), where this = this]
  show "\<exists>sched' res. pc (Do E this req sched') = Returned (Inr res)"
    by (simp add: Do_def)
  show "pc (task_done i (Inl err) s) = pc s" for i err by simp
  show "Files (unzipResult (task_done i (Inl err) s)) = Files (unzipResult s) @
      [\<lparr>Key = fileName (uploadWg s ! i), Hash = [],
        Error = ''save unzip file to bucket error, '' @ err\<rparr>]"
    if "i < length (uploadWg s)" for i err
    using that by (simp add: task_done_in_range upload_def Let_def)
qed

lemma failing_run:
  "Do (example_env scenario_archive) example_Unzipper example_req failing_sched =
     \<lparr>bucket = ''bkt'', prefix = ''out/'', overwrite = False,
      pc = Returned (Inr \<lparr>Files = [\<lparr>Key = ''out/a.txt'', Hash = [],
                                      Error = ''save unzip file to bucket error, timeout''\<rparr>,
                                    \<lparr>Key = ''out/b/c.txt'', Hash = [],
                                      Error = ''save unzip file to bucket error, 503''\<rparr>]\<rparr>),
      policy_Scope = ''bkt'',
      unzipResult = \<lparr>Files = [\<lparr>Key = ''out/a.txt'', Hash = [],
                                      Error = ''save unzip file to bucket error, timeout''\<rparr>,
                                    \<lparr>Key = ''out/b/c.txt'', Hash = [],
                                      Error = ''save unzip file to bucket error, 503''\<rparr>]\<rparr>,
      uploadCounter = 2, uploadWg = [],
      puts = [(FioPut ''ak:bkt'' ''out/a.txt'' (replicate 10 0), Inl ''timeout''),
              (FioPut ''ak:bkt'' ''out/b/c.txt'' (replicate 20 0), Inl ''503'')]\<rparr>"
  unfolding Do_def scenario_start
  by (simp add: scenario_archive_def file_entry_def dir_entry_def
      failing_sched_def main_step_def task_done_def upload_def init_def
      decode_name_def example_env_def example_Unzipper_def MAX_UPLOAD_WORKERS_def
      rputThreshold_def Let_def)

text \<open>Both uploads of the scenario fail, and the call succeeds.\<close>

theorem upload_failures_isolated_witness:
  "pc (Do (example_env scenario_archive) example_Unzipper example_req failing_sched)
     = Returned (Inr \<lparr>Files = [\<lparr>Key = ''out/a.txt'', Hash = [],
                                   Error = ''save unzip file to bucket error, timeout''\<rparr>,
                                 \<lparr>Key = ''out/b/c.txt'', Hash = [],
                                   Error = ''save unzip file to bucket error, 503''\<rparr>]\<rparr>)
   \<and> map snd (puts (Do (example_env scenario_archive) example_Unzipper example_req failing_sched))
       = [Inl ''timeout'', Inl ''503'']
   \<and> map recorded (puts (Do (example_env scenario_archive) example_Unzipper example_req
        failing_sched))
       = [\<lparr>Key = ''out/a.txt'', Hash = [], Error = ''save unzip file to bucket error, timeout''\<rparr>,
          \<lparr>Key = ''out/b/c.txt'', Hash = [], Error = ''save unzip file to bucket error, 503''\<rparr>]"
proof -
  let ?E = "example_env scenario_archive"
  let ?s = "Do ?E example_Unzipper example_req failing_sched"
  have s: "pc (Do_start ?E example_Unzipper example_req) = Loop scenario_archive"
    by (simp add: scenario_start init_def)
  have r: "pc ?s = Returned (Inr \<lparr>Files = [\<lparr>Key = ''out/a.txt'', Hash = [],
                                   Error = ''save unzip file to bucket error, timeout''\<rparr>,
                                 \<lparr>Key = ''out/b/c.txt'', Hash = [],
                                   Error = ''save unzip file to bucket error, 503''\<rparr>]\<rparr>)"
    "map snd (puts ?s) = [Inl ''timeout'', Inl ''503'']"
    by (simp_all add: failing_run)
  from upload_failures_isolated [OF s scenario_well_formed refl, where sched = failing_sched] r(1)
  have "map recorded (puts ?s) = [\<lparr>Key = ''out/a.txt'', Hash = [],
                                   Error = ''save unzip file to bucket error, timeout''\<rparr>,
                                 \<lparr>Key = ''out/b/c.txt'', Hash = [],
                                   Error = ''save unzip file to bucket error, 503''\<rparr>]"
    by auto
  with r show ?thesis by simp
qed

section \<open>The upload strategy\<close>

lemma upload_call:
  "key_of_call (fst (upload t ret)) = fileName t"
  "call_fits_size (fileSize t) (fst (upload t ret))"
  "direct (fst (upload t ret)) = (fileSize t \<le> 104857600)"
  by (simp_all add: upload_def Let_def rputThreshold_def rputSettings_def not_le)

lemma call_of_task:
  "task_from_entry E p zipFiles t \<Longrightarrow> call_from_entry E p zipFiles (fst (upload t ret))"
  unfolding task_from_entry_def call_from_entry_def
  using upload_call(1,2) [of t ret] by auto

lemma origin_inv_main_step:
  assumes "origin_inv E zipFiles s"
  shows "origin_inv E zipFiles (main_step E this s)"
proof (cases rule: main_step_cases [where s = s and E = E and this = this])
  case (launch zf rest n d t scope)
  with assms have "zf \<in> set zipFiles" by (auto simp: origin_inv_def)
  with launch have "task_from_entry E (prefix s) zipFiles t"
    by (auto simp: task_from_entry_def decodedName_def)
  with assms launch show ?thesis by (auto simp: origin_inv_def)
next
  case (block zf rest n d t scope)
  with assms have "zf \<in> set zipFiles" by (auto simp: origin_inv_def)
  with block have "task_from_entry E (prefix s) zipFiles t"
    by (auto simp: task_from_entry_def decodedName_def)
  with assms block show ?thesis by (auto simp: origin_inv_def)
qed (use assms in \<open>auto simp: origin_inv_def\<close>)

lemma origin_inv_task_done:
  assumes "origin_inv E zipFiles s"
  shows "origin_inv E zipFiles (task_done i ret s)"
proof (cases "i < length (uploadWg s)")
  case True
  with assms have "task_from_entry E (prefix s) zipFiles (uploadWg s ! i)"
    by (simp add: origin_inv_def)
  then have c: "call_from_entry E (prefix s) zipFiles (fst (upload (uploadWg s ! i) ret))"
    by (rule call_of_task)
  have "set (take i (uploadWg s) @ drop (Suc i) (uploadWg s)) \<subseteq> set (uploadWg s)"
    using set_take_subset [of i "uploadWg s"] set_drop_subset [of "Suc i" "uploadWg s"] by auto
  with assms c True show ?thesis
    by (auto simp: origin_inv_def task_done_in_range split: pc.splits)
next
  case False
  with assms show ?thesis by (simp add: task_done_out_of_range)
qed

lemma Do_origin_inv:
  assumes "pc (Do_start E this req) = Loop zipFiles"
  shows "origin_inv E zipFiles (Do E this req sched)"
  unfolding Do_def
proof (rule run_invariant)
  from Do_start_Loop [OF assms] assms
  show "origin_inv E zipFiles (Do_start E this req)"
    by (simp add: origin_inv_def)
qed (simp_all add: origin_inv_main_step origin_inv_task_done)

lemma Do_prefix:
  assumes "parse E (Cmd req) = Inr (b, p, ow)" and "pc (Do_start E this req) = Loop zipFiles"
  shows "prefix (Do E this req sched) = p"
  using Do_start_parsed [OF assms(2,1)] by (simp add: Do_def init_def)

lemma mixed_start:
  "Do_start (example_env [file_entry ''a.txt'' 10, big_entry]) roomy_Unzipper example_req
     = init\<lparr>bucket := ''bkt'', prefix := ''out/'', overwrite := False, policy_Scope := ''bkt'',
         pc := Loop [file_entry ''a.txt'' 10, big_entry]\<rparr>"
  unfolding Do_start_def
  by (simp add: example_parse example_fetch)
     (simp add: example_req_def roomy_Unzipper_def example_Unzipper_def
       UNZIP_MAX_ZIP_FILE_LENGTH_def UNZIP_MAX_FILE_COUNT_def file_entry_def big_entry_def)

lemma mixed_run:
  "puts (Do (example_env [file_entry ''a.txt'' 10, big_entry]) roomy_Unzipper example_req mixed_sched)
     = [(FioPut ''ak:bkt'' ''out/a.txt'' (replicate 10 0), Inr ''Fh1''),
        (RioPut \<lparr>ChunkSize = 4194304, Workers = 1\<rparr> ''ak:bkt'' ''out/big.bin'' [1, 2, 3] 104857601,
         Inr ''lh2'')]"
  unfolding Do_def mixed_start
  by (simp add: file_entry_def big_entry_def
      mixed_sched_def main_step_def task_done_def upload_def init_def
      decode_name_def example_env_def example_Unzipper_def roomy_Unzipper_def
      MAX_UPLOAD_WORKERS_def rputThreshold_def rputSettings_def Let_def)

text \<open>
  C5. Every call made to the store, under any schedule, belongs to an entry of the archive
  that is not a directory, carries that entry's key, and its strategy is the one the
  entry's declared size selects: the direct put when the size is at most 100 MiB (zero
  included), otherwise the resumable put with chunks of 4 MiB and the size as declared
  length. Every outstanding goroutine carries the declared size of its entry, and the
  goroutine's choice depends on that size alone.
\<close>

theorem strategy_by_size:
  assumes "pc (Do_start E this req) = Loop zipFiles" and "parse E (Cmd req) = Inr (b, p, ow)"
  shows "(\<forall>c \<in> set (puts (Do E this req sched)).
            \<exists>zf \<in> set zipFiles. \<not> IsDir zf \<and> key_of_call (fst c) = p @ decodedName E zf
              \<and> call_fits_size (UncompressedSize64 zf) (fst c))
       \<and> (\<forall>t \<in> set (uploadWg (Do E this req sched)).
            \<exists>zf \<in> set zipFiles. \<not> IsDir zf \<and> fileName t = p @ decodedName E zf
              \<and> fileSize t = UncompressedSize64 zf)
       \<and> (\<forall>t ret. call_fits_size (fileSize t) (fst (upload t ret))
            \<and> direct (fst (upload t ret)) = (fileSize t \<le> 104857600))"
proof -
  from Do_origin_inv [OF assms(1), of sched] Do_prefix [OF assms(2,1), of sched]
  have "origin_inv E zipFiles (Do E this req sched)" "prefix (Do E this req sched) = p"
    by simp_all
  then show ?thesis
    by (simp add: origin_inv_def call_from_entry_def task_from_entry_def upload_call)
qed

text \<open>
  With a per-entry limit of 200 MiB, a file of 10 bytes goes through the direct put and an
  entry declaring 100 MiB and one byte through the resumable put.
\<close>

theorem strategy_by_size_witness:
  "puts (Do (example_env [file_entry ''a.txt'' 10, big_entry]) roomy_Unzipper example_req mixed_sched)
     = [(FioPut ''ak:bkt'' ''out/a.txt'' (replicate 10 0), Inr ''Fh1''),
        (RioPut \<lparr>ChunkSize = 4194304, Workers = 1\<rparr> ''ak:bkt'' ''out/big.bin'' [1, 2, 3] 104857601,
         Inr ''lh2'')]
   \<and> UncompressedSize64 (file_entry ''a.txt'' 10) = 10
   \<and> UncompressedSize64 big_entry = 104857601
   \<and> call_fits_size 10 (FioPut ''ak:bkt'' ''out/a.txt'' (replicate 10 0))
   \<and> call_fits_size 104857601
        (RioPut \<lparr>ChunkSize = 4194304, Workers = 1\<rparr> ''ak:bkt'' ''out/big.bin'' [1, 2, 3] 104857601)"
proof -
  let ?E = "example_env [file_entry ''a.txt'' 10, big_entry]"
  have s: "pc (Do_start ?E roomy_Unzipper example_req) = Loop [file_entry ''a.txt'' 10, big_entry]"
    by (simp add: mixed_start init_def)
  have k: "decodedName ?E (file_entry ''a.txt'' 10) = ''a.txt''" "decodedName ?E big_entry = ''big.bin''"
    "UncompressedSize64 (file_entry ''a.txt'' 10) = 10" "UncompressedSize64 big_entry = 104857601"
    by (simp_all add: decodedName_def decode_name_def example_env_def file_entry_def big_entry_def)
  from strategy_by_size [OF s example_parse, where sched = mixed_sched]
  have "\<forall>c \<in> set (puts (Do ?E roomy_Unzipper example_req mixed_sched)).
      \<exists>zf \<in> set [file_entry ''a.txt'' 10, big_entry]. \<not> IsDir zf
        \<and> key_of_call (fst c) = ''out/'' @ decodedName ?E zf
        \<and> call_fits_size (UncompressedSize64 zf) (fst c)"
    by blast
  then show ?thesis
    by (simp add: mixed_run k)
qed

lemma Do_puts_direct:
  assumes "maxFileLength this \<le> 104857600"
  shows "\<forall>c \<in> set (puts (Do E this req sched)). direct (fst c)"
proof (cases rule: Do_start_cases [where E = E and this = this and req = req])
  case (fatal err)
  then show ?thesis by (simp add: Do_failed failed_fields)
next
  case (loop b p ow resResp respData zipFiles)
  then have s: "pc (Do_start E this req) = Loop zipFiles" by (simp add: init_def)
  from loop(9) assms have z: "\<forall>zf \<in> set zipFiles. UncompressedSize64 zf \<le> 104857600"
    by (auto simp: check_file_size_iff)
  have "direct call" if "call_fits_size n call" "n \<le> 104857600" for n call
    using that by (cases call) auto
  with z Do_origin_inv [OF s, of sched] show ?thesis
    by (fastforce simp: origin_inv_def call_from_entry_def)
qed

lemma Do_tasks_small:
  assumes "maxFileLength this \<le> 104857600"
  shows "\<forall>t \<in> set (uploadWg (Do E this req sched)). fileSize t \<le> 104857600"
proof (cases rule: Do_start_cases [where E = E and this = this and req = req])
  case (fatal err)
  then show ?thesis by (simp add: Do_failed failed_fields)
next
  case (loop b p ow resResp respData zipFiles)
  then have s: "pc (Do_start E this req) = Loop zipFiles" by (simp add: init_def)
  from loop(9) assms have z: "\<forall>zf \<in> set zipFiles. UncompressedSize64 zf \<le> 104857600"
    by (auto simp: check_file_size_iff)
  with Do_origin_inv [OF s, of sched] show ?thesis
    by (fastforce simp: origin_inv_def task_from_entry_def)
qed

text \<open>
  C10. When the per-entry limit is the default of 100 MiB, which is the threshold of the
  resumable put, every call made to the store under any schedule is a direct put, and
  every outstanding goroutine has a size at or below the threshold, so that it will make
  a direct put too.
\<close>

theorem default_limit_always_direct:
  assumes "maxFileLength this = UNZIP_MAX_FILE_LENGTH"
  shows "UNZIP_MAX_FILE_LENGTH = rputThreshold
       \<and> (\<forall>c \<in> set (puts (Do E this req sched)). direct (fst c))
       \<and> (\<forall>t \<in> set (uploadWg (Do E this req sched)). \<forall>ret.
             fileSize t \<le> rputThreshold \<and> direct (fst (upload t ret)))"
proof -
  have e: "UNZIP_MAX_FILE_LENGTH = rputThreshold" "rputThreshold = 104857600"
    by (simp_all add: UNZIP_MAX_FILE_LENGTH_def rputThreshold_def)
  with assms have m: "maxFileLength this \<le> 104857600" by simp
  from Do_puts_direct [OF m] Do_tasks_small [OF m] e show ?thesis
    by (simp add: upload_call)
qed

lemma limit_run:
  "puts (Do (example_env [limit_entry]) example_Unzipper example_req limit_sched)
     = [(FioPut ''ak:bkt'' ''out/max.bin'' [7], Inr ''Fh'')]"
  unfolding Do_def
  apply (subst example_start)
    apply (simp_all add: limit_entry_def)
  apply (simp add: limit_sched_def main_step_def task_done_def upload_def init_def
      decode_name_def example_env_def example_Unzipper_def MAX_UPLOAD_WORKERS_def
      rputThreshold_def Let_def)
  done

text \<open>An entry of exactly 100 MiB under the default configuration.\<close>

theorem default_limit_always_direct_witness:
  "InitConfig example_Unzipper
      (Decoded \<lparr>AccessKey = ''ak'', SecretKey = ''sk'', UnzipMaxZipFileLength = 0,
         UnzipMaxFileLength = 0, UnzipMaxFileCount = 0\<rparr>) = Inr example_Unzipper
   \<and> maxFileLength example_Unzipper = 104857600
   \<and> UncompressedSize64 limit_entry = 104857600
   \<and> puts (Do (example_env [limit_entry]) example_Unzipper example_req limit_sched)
       = [(FioPut ''ak:bkt'' ''out/max.bin'' [7], Inr ''Fh'')]
   \<and> direct (FioPut ''ak:bkt'' ''out/max.bin'' [7])"
proof -
  have m: "maxFileLength example_Unzipper = UNZIP_MAX_FILE_LENGTH"
    by (simp add: example_Unzipper_def)
  have c: "maxFileLength example_Unzipper = 104857600"
    "UncompressedSize64 limit_entry = 104857600"
    by (simp_all add: limit_entry_def example_Unzipper_def UNZIP_MAX_FILE_LENGTH_def)
  from default_limit_always_direct [OF m, of "example_env [limit_entry]" example_req limit_sched]
  have "\<forall>c \<in> set (puts (Do (example_env [limit_entry]) example_Unzipper example_req limit_sched)).
      direct (fst c)" by blast
  then have "direct (FioPut ''ak:bkt'' ''out/max.bin'' [7])"
    by (simp add: limit_run)
  with c limit_run InitConfig_defaults [of example_Unzipper] show ?thesis
    by blast
qed

section \<open>Entry names\<close>

lemma poison_inv_main_step:
  assumes "decode_name E (Name zf) = Inl e" and "poison_inv zf s"
  shows "poison_inv zf (main_step E this s)"
  by (cases rule: main_step_cases [where s = s and E = E and this = this])
     (use assms in \<open>auto simp: poison_inv_def\<close>)

lemma poison_inv_task_done: "poison_inv zf s \<Longrightarrow> poison_inv zf (task_done i ret s)"
  by (simp add: poison_inv_def)

lemma Do_poison_inv:
  assumes "pc (Do_start E this req) = Loop zipFiles" and "zf \<in> set zipFiles"
    and "decode_name E (Name zf) = Inl e"
  shows "poison_inv zf (Do E this req sched)"
  unfolding Do_def
proof (rule run_invariant)
  show "poison_inv zf (Do_start E this req)"
    using assms(1,2) by (simp add: poison_inv_def)
qed (simp_all add: poison_inv_main_step [OF assms(3)] poison_inv_task_done)

text \<open>
  C6. The name of every entry is checked, and transcoded from GBK when it is not valid
  UTF-8, before the entry is asked whether it is a directory. If the archive has an entry,
  directory or not, whose name is not valid UTF-8 and does not transcode, no schedule
  returns a report, some schedule returns an error, and the iteration that visits the
  entry returns the encoding error. A name that transcodes is replaced by its
  transcoding.
\<close>

theorem undecodable_name_fatal:
  assumes "pc (Do_start E this req) = Loop zipFiles" and "zf \<in> set zipFiles"
    and "\<not> utf8_Valid E (Name zf)" and "Gbk2Utf8 E (Name zf) = Inl tErr"
  shows "(\<forall>res. pc (Do E this req sched) \<noteq> Returned (Inr res))
       \<and> (\<exists>sched' err. pc (Do E this req sched') = Returned (Inl err))
       \<and> (\<forall>s rest. pc s = Loop (zf # rest) \<longrightarrow>
            main_step E this s
              = s\<lparr>pc := Returned (Inl (''unsupported file name encoding, '' @ tErr))\<rparr>)
       \<and> (\<forall>zf' name. \<not> utf8_Valid E (Name zf') \<and> Gbk2Utf8 E (Name zf') = Inr name \<longrightarrow>
            decode_name E (Name zf') = Inr name)"
proof (intro conjI allI impI)
  from assms(3,4)
  have d: "decode_name E (Name zf) = Inl (''unsupported file name encoding, '' @ tErr)"
    by (simp add: decode_name_def)
  from Do_poison_inv [OF assms(1,2) d, of sched]
  show "pc (Do E this req sched) \<noteq> Returned (Inr res)" for res
    by (auto simp: poison_inv_def)
  from d have "\<not> well_formed E zf" by (simp add: well_formed_def)
  with assms(2) have "\<exists>zf \<in> set zipFiles. \<not> well_formed E zf" by blast
  from reach_fatal [OF this assms(1), where this = this]
  show "\<exists>sched' err. pc (Do E this req sched') = Returned (Inl err)"
    by (simp add: Do_def)
  show "main_step E this s
      = s\<lparr>pc := Returned (Inl (''unsupported file name encoding, '' @ tErr))\<rparr>"
    if "pc s = Loop (zf # rest)" for s rest
    using that d by (simp add: main_step_def)
  show "decode_name E (Name zf') = Inr name"
    if "\<not> utf8_Valid E (Name zf') \<and> Gbk2Utf8 E (Name zf') = Inr name" for zf' name
    using that by (simp add: decode_name_def)
qed

lemma bad_dir_start:
  "Do_start (example_env [file_entry ''a.txt'' 10, bad_dir_entry]) example_Unzipper example_req
     = init\<lparr>bucket := ''bkt'', prefix := ''out/'', overwrite := False, policy_Scope := ''bkt'',
         pc := Loop [file_entry ''a.txt'' 10, bad_dir_entry]\<rparr>"
  by (rule example_start) (simp_all add: file_entry_def bad_dir_entry_def)

lemma bad_dir_run:
  "pc (Do (example_env [file_entry ''a.txt'' 10, bad_dir_entry]) example_Unzipper example_req
        bad_dir_sched)
     = Returned (Inl ''unsupported file name encoding, illegal byte sequence'')"
  "puts (Do (example_env [file_entry ''a.txt'' 10, bad_dir_entry]) example_Unzipper example_req
        bad_dir_sched)
     = [(FioPut ''ak:bkt'' ''out/a.txt'' (replicate 10 0), Inr ''Fh1'')]"
  unfolding Do_def bad_dir_start
  by (simp_all add: file_entry_def bad_dir_entry_def
      bad_dir_sched_def main_step_def task_done_def upload_def init_def
      decode_name_def example_env_def example_Unzipper_def MAX_UPLOAD_WORKERS_def
      rputThreshold_def Let_def)

text \<open>A directory entry with an undecodable name after a well-formed file.\<close>

theorem undecodable_name_fatal_witness:
  "IsDir bad_dir_entry
   \<and> Gbk2Utf8 (example_env [file_entry ''a.txt'' 10, bad_dir_entry]) (Name bad_dir_entry)
       = Inl ''illegal byte sequence''
   \<and> pc (Do (example_env [file_entry ''a.txt'' 10, bad_dir_entry]) example_Unzipper example_req
        bad_dir_sched)
       = Returned (Inl ''unsupported file name encoding, illegal byte sequence'')
   \<and> main_step (example_env [file_entry ''a.txt'' 10, bad_dir_entry]) example_Unzipper
        (init\<lparr>pc := Loop [bad_dir_entry]\<rparr>)
       = init\<lparr>pc := Returned (Inl ''unsupported file name encoding, illegal byte sequence'')\<rparr>"
proof -
  let ?E = "example_env [file_entry ''a.txt'' 10, bad_dir_entry]"
  have s: "pc (Do_start ?E example_Unzipper example_req) = Loop [file_entry ''a.txt'' 10, bad_dir_entry]"
    by (simp add: bad_dir_start init_def)
  have m: "bad_dir_entry \<in> set [file_entry ''a.txt'' 10, bad_dir_entry]" by simp
  have u: "\<not> utf8_Valid ?E (Name bad_dir_entry)"
    by (simp add: example_env_def bad_dir_entry_def)
  have g: "Gbk2Utf8 ?E (Name bad_dir_entry) = Inl ''illegal byte sequence''"
    by (simp add: example_env_def bad_dir_entry_def)
  have i: "IsDir bad_dir_entry" by (simp add: bad_dir_entry_def)
  from undecodable_name_fatal [OF s m u g, where sched = bad_dir_sched]
  have c: "\<forall>s rest. pc s = Loop (bad_dir_entry # rest) \<longrightarrow>
      main_step ?E example_Unzipper s
        = s\<lparr>pc := Returned (Inl (''unsupported file name encoding, '' @ ''illegal byte sequence''))\<rparr>"
    by blast
  have "pc (init\<lparr>pc := Loop [bad_dir_entry]\<rparr>) = Loop (bad_dir_entry # [])" by simp
  from c [rule_format, OF this]
  have "main_step ?E example_Unzipper (init\<lparr>pc := Loop [bad_dir_entry]\<rparr>)
      = init\<lparr>pc := Returned (Inl ''unsupported file name encoding, illegal byte sequence'')\<rparr>"
    by simp
  with i g bad_dir_run(1) show ?thesis by simp
qed

section \<open>Returning while uploads are outstanding\<close>

lemma Do_append: "Do E this req (a @ b) = run E this b (Do E this req a)"
  by (simp add: Do_def run_append)

lemma run_pc_returned:
  assumes "pc s = Returned r"
  shows "pc (run E this sched s) = Returned r"
proof (rule run_invariant)
  show "pc s = Returned r" by (rule assms)
  show "pc (main_step E this s') = Returned r" if "pc s' = Returned r" for s'
    using that by (simp add: main_step_def)
qed simp

lemma pre_abort_run:
  "Do (example_env bulk_archive) bulk_Unzipper example_req pre_abort_sched
     = loop_state 101 2 99 (Loop [truncated_entry])"
proof -
  let ?E = "example_env bulk_archive"
  have "run ?E bulk_Unzipper (replicate 99 (Done 0 (Inr ''Fh'')))
      (loop_state 100 99 0 (Barrier f_task [file_entry ''f'' 1, truncated_entry]))
      = loop_state 100 0 99 (Barrier f_task [file_entry ''f'' 1, truncated_entry])"
    using run_dones [where w = 0 and k = 99 and d = 0] by simp
  then show ?thesis
    by (simp add: pre_abort_sched_def Do_append Do_hundred_mains run_append
        main_step_barrier main_step_f numeral_2_eq_2)
qed

lemma abort_run:
  "Do (example_env bulk_archive) bulk_Unzipper example_req abort_sched
     = loop_state 101 2 99 (Returned (Inl ''unzip the file content failed, unexpected EOF''))"
  by (simp add: abort_sched_def Do_append pre_abort_run main_step_truncated)

text \<open>
  C2, as stated, fails. Over the bulk archive the first 99 uploads are awaited at the
  barrier, two more goroutines are launched, and the read error of the next entry makes
  \<^verbatim>\<open>Do\<close> return while those two are outstanding: no \<^verbatim>\<open>uploadWg.Wait()\<close> is on
  the path of that return.
\<close>

theorem error_return_leaves_uploads_counterexample:
  "pc (Do (example_env bulk_archive) bulk_Unzipper example_req abort_sched)
     = Returned (Inl ''unzip the file content failed, unexpected EOF'')
   \<and> length (puts (Do (example_env bulk_archive) bulk_Unzipper example_req abort_sched)) = 99
   \<and> uploadWg (Do (example_env bulk_archive) bulk_Unzipper example_req abort_sched)
       = [f_task, f_task]
   \<and> uploadWg (Do (example_env bulk_archive) bulk_Unzipper example_req abort_sched) \<noteq> []"
  by (simp add: abort_run loop_state_def numeral_2_eq_2)

text \<open>
  C2, amended. The iteration that meets a read error returns the error in that same move
  and leaves the wait group as it is: the goroutines launched since the last barrier (at
  most the upload counter modulo 100, plus one) are not awaited and not cancelled, each of
  them still makes its call to the store when it is scheduled after the return, and the
  call of \<^verbatim>\<open>Do\<close> stays returned. The uploads launched before the last barrier are the
  ones that have completed.
\<close>

theorem read_error_returns_at_once:
  assumes "s = Do E this req sched" and "pc s = Loop (zf # rest)"
    and "decode_name E (Name zf) = Inr name" and "\<not> IsDir zf"
    and "Content zf = ReadError unzipErr"
  shows "main_step E this s
           = s\<lparr>pc := Returned (Inl (''unzip the file content failed, '' @ unzipErr))\<rparr>
       \<and> uploadWg (main_step E this s) = uploadWg s
       \<and> length (uploadWg s) \<le> uploadCounter s mod 100 + 1
       \<and> uploadCounter s = length (puts s) + length (uploadWg s)
       \<and> (\<forall>i ret. i < length (uploadWg s) \<longrightarrow>
            puts (task_done i ret (main_step E this s))
              = puts s @ [(fst (upload (uploadWg s ! i) ret), ret)])
       \<and> (\<forall>sched'. pc (run E this sched' (main_step E this s)) = pc (main_step E this s))"
proof -
  from assms(2-5)
  have m: "main_step E this s
      = s\<lparr>pc := Returned (Inl (''unzip the file content failed, '' @ unzipErr))\<rparr>"
    by (simp add: main_step_def)
  from Do_wg_inv [of E this req sched] assms(1,2)
  have w: "length (uploadWg s) \<le> uploadCounter s mod 100 + 1"
    by (simp add: wg_inv_def MAX_UPLOAD_WORKERS_def)
  from Do_count_inv [of E this req sched] assms(1,2)
  have c: "uploadCounter s = length (puts s) + length (uploadWg s)"
    by (simp add: count_inv_def)
  have d: "puts (task_done i ret (main_step E this s))
      = puts s @ [(fst (upload (uploadWg s ! i) ret), ret)]"
    if "i < length (uploadWg s)" for i ret
    using that by (simp add: m task_done_in_range)
  have r: "pc (run E this sched' (main_step E this s)) = pc (main_step E this s)" for sched'
    by (simp add: run_pc_returned m)
  from m w c d r show ?thesis by simp
qed

theorem read_error_returns_at_once_witness:
  "Do (example_env bulk_archive) bulk_Unzipper example_req pre_abort_sched
     = loop_state 101 2 99 (Loop [truncated_entry])
   \<and> main_step (example_env bulk_archive) bulk_Unzipper
        (loop_state 101 2 99 (Loop [truncated_entry]))
       = loop_state 101 2 99 (Returned (Inl ''unzip the file content failed, unexpected EOF''))
   \<and> uploadWg (main_step (example_env bulk_archive) bulk_Unzipper
        (loop_state 101 2 99 (Loop [truncated_entry]))) = [f_task, f_task]"
proof -
  let ?E = "example_env bulk_archive"
  let ?s = "loop_state 101 2 99 (Loop [truncated_entry])"
  have s: "?s = Do ?E bulk_Unzipper example_req pre_abort_sched" by (simp add: pre_abort_run)
  have p: "pc ?s = Loop (truncated_entry # [])" by (simp add: loop_state_def)
  have n: "decode_name ?E (Name truncated_entry) = Inr ''b.txt''"
    by (simp add: decode_name_def example_env_def truncated_entry_def)
  have i: "\<not> IsDir truncated_entry" "Content truncated_entry = ReadError ''unexpected EOF''"
    by (simp_all add: truncated_entry_def)
  from read_error_returns_at_once [OF s p n i]
  have "main_step ?E bulk_Unzipper ?s
      = ?s\<lparr>pc := Returned (Inl (''unzip the file content failed, '' @ ''unexpected EOF''))\<rparr>"
    "uploadWg (main_step ?E bulk_Unzipper ?s) = uploadWg ?s"
    by blast+
  then have "main_step ?E bulk_Unzipper ?s
      = loop_state 101 2 99 (Returned (Inl ''unzip the file content failed, unexpected EOF''))"
    "uploadWg (main_step ?E bulk_Unzipper ?s) = [f_task, f_task]"
    by (simp_all add: loop_state_def numeral_2_eq_2)
  with pre_abort_run show ?thesis by blast
qed

section \<open>The fields of an outcome\<close>

lemma Do_start_puts: "puts (Do_start E this req) = []"
  by (cases rule: Do_start_cases [where E = E and this = this and req = req])
     (simp_all add: failed_fields init_def)

lemma run_hash_given:
  "list_all nonempty_hash sched \<Longrightarrow> \<forall>c \<in> set (puts s). hash_given (snd c) \<Longrightarrow>
     \<forall>c \<in> set (puts (run E this sched s)). hash_given (snd c)"
proof (induction sched arbitrary: s)
  case Nil
  then show ?case by simp
next
  case (Cons m sched)
  have "\<forall>c \<in> set (puts (step E this m s)). hash_given (snd c)"
  proof (cases m)
    case Main
    with Cons.prems(2) show ?thesis by simp
  next
    case (Done i ret)
    with Cons.prems show ?thesis
      by (cases "i < length (uploadWg s)")
         (simp_all add: task_done_in_range task_done_out_of_range)
  qed
  with Cons.IH [of "step E this m s"] Cons.prems(1) show ?case by simp
qed

lemma recorded_fields:
  "\<not> (Hash (recorded c) \<noteq> [] \<and> Error (recorded c) \<noteq> [])"
  "hash_given (snd c) \<Longrightarrow> exactly_one_set (recorded c)"
  by (cases c; cases "snd c"; simp add: exactly_one_set_def)+

lemma single_start:
  "Do_start (example_env [file_entry ''a.txt'' 10]) example_Unzipper example_req
     = init\<lparr>bucket := ''bkt'', prefix := ''out/'', overwrite := False, policy_Scope := ''bkt'',
         pc := Loop [file_entry ''a.txt'' 10]\<rparr>"
  by (rule example_start) (simp_all add: file_entry_def)

text \<open>
  C8, as stated, fails. The hash of an outcome is the one the store returns; when the
  store answers a put with no error and an empty hash, the outcome has neither field set.
\<close>

theorem outcome_with_neither_field_counterexample:
  "pc (Do (example_env [file_entry ''a.txt'' 10]) example_Unzipper example_req empty_hash_sched)
     = Returned (Inr \<lparr>Files = [\<lparr>Key = ''out/a.txt'', Hash = [], Error = []\<rparr>]\<rparr>)
   \<and> \<not> exactly_one_set \<lparr>Key = ''out/a.txt'', Hash = [], Error = []\<rparr>"
  unfolding Do_def single_start
  by (simp add: file_entry_def exactly_one_set_def
      empty_hash_sched_def main_step_def task_done_def upload_def init_def
      decode_name_def example_env_def example_Unzipper_def MAX_UPLOAD_WORKERS_def
      rputThreshold_def Let_def)

text \<open>
  C8, amended. No recorded outcome has both the hash and the error set, under any
  schedule; and every recorded outcome has exactly one of them set when the store never
  answers a successful put with an empty hash. The returned report is the aggregated one.
\<close>

theorem hash_xor_error:
  assumes "s = Do E this req sched" and "f \<in> set (Files (unzipResult s))"
  shows "\<not> (Hash f \<noteq> [] \<and> Error f \<noteq> [])
       \<and> (list_all nonempty_hash sched \<longrightarrow> exactly_one_set f)
       \<and> (\<forall>res. pc s = Returned (Inr res) \<longrightarrow> res = unzipResult s)"
proof -
  from Do_log_inv [of E this req sched] assms(1)
  have "Files (unzipResult s) = map recorded (puts s)" by (simp add: log_inv_def)
  with assms(2) obtain c where c: "c \<in> set (puts s)" "f = recorded c" by auto
  have 1: "\<not> (Hash f \<noteq> [] \<and> Error f \<noteq> [])"
    unfolding c(2) by (rule recorded_fields(1))
  have 2: "exactly_one_set f" if "list_all nonempty_hash sched"
  proof -
    from run_hash_given [OF that, of "Do_start E this req" E this] assms(1) c(1)
    have "hash_given (snd c)" by (simp add: Do_def Do_start_puts)
    then show ?thesis unfolding c(2) by (rule recorded_fields(2))
  qed
  from Do_ret_inv [of E this req sched] assms(1)
  have 3: "\<forall>res. pc s = Returned (Inr res) \<longrightarrow> res = unzipResult s"
    by (simp add: ret_inv_def)
  from 1 2 3 show ?thesis by blast
qed

lemma partial_run:
  "Files (unzipResult (Do (example_env scenario_archive) example_Unzipper example_req partial_sched))
     = [\<lparr>Key = ''out/a.txt'', Hash = ''Fh1'', Error = []\<rparr>,
        \<lparr>Key = ''out/b/c.txt'', Hash = [], Error = ''save unzip file to bucket error, timeout''\<rparr>]"
  unfolding Do_def scenario_start
  by (simp add: scenario_archive_def file_entry_def dir_entry_def
      partial_sched_def main_step_def task_done_def upload_def init_def
      decode_name_def example_env_def example_Unzipper_def MAX_UPLOAD_WORKERS_def
      rputThreshold_def Let_def)

theorem hash_xor_error_witness:
  "Files (unzipResult (Do (example_env scenario_archive) example_Unzipper example_req partial_sched))
     = [\<lparr>Key = ''out/a.txt'', Hash = ''Fh1'', Error = []\<rparr>,
        \<lparr>Key = ''out/b/c.txt'', Hash = [], Error = ''save unzip file to bucket error, timeout''\<rparr>]
   \<and> list_all nonempty_hash partial_sched
   \<and> exactly_one_set \<lparr>Key = ''out/a.txt'', Hash = ''Fh1'', Error = []\<rparr>
   \<and> exactly_one_set \<lparr>Key = ''out/b/c.txt'', Hash = [],
        Error = ''save unzip file to bucket error, timeout''\<rparr>"
proof -
  let ?s = "Do (example_env scenario_archive) example_Unzipper example_req partial_sched"
  have n: "list_all nonempty_hash partial_sched" by (simp add: partial_sched_def)
  have a: "\<lparr>Key = ''out/a.txt'', Hash = ''Fh1'', Error = []\<rparr> \<in> set (Files (unzipResult ?s))"
    and b: "\<lparr>Key = ''out/b/c.txt'', Hash = [],
        Error = ''save unzip file to bucket error, timeout''\<rparr> \<in> set (Files (unzipResult ?s))"
    by (simp_all add: partial_run)
  from hash_xor_error [OF refl a] hash_xor_error [OF refl b] n partial_run
  show ?thesis by blast
qed

end
